theory Spec2Isabelle
  imports Complex_Main "HOL-Library.Word"
begin

section \<open>Values and errors\<close>

text \<open>
  The client is TypeScript running in a browser. Bytes of a \<open>Uint8Array\<close> or
  \<open>ArrayBuffer\<close> are \<open>8 word\<close>. Texts are \<open>string\<close>: the codec only ever
  builds strings of code units below 256 (\<open>String.fromCharCode\<close> of a byte), and a
  wire text with a code unit above 255 is refused by \<open>atob\<close> anyway, so the 8-bit
  characters of HOL cover every text the decoder accepts.
\<close>

type_synonym byte = "8 word"

text \<open>
  What JavaScript code can throw here: an \<open>Error\<close> or \<open>TypeError\<close> made by the
  source with its message, the \<open>DOMException\<close> named \<open>InvalidCharacterError\<close>
  that \<open>window.atob\<close> raises, and the \<open>TypeError\<close> the engine raises when a BigInt
  or a Symbol is to become a number.
\<close>

datatype js_error =
    TypeError string
  | Error string
  | InvalidCharacterError
  | ConversionTypeError

text \<open>
  A JavaScript number is an IEEE double: not-a-number, an infinity, or a finite number,
  given by its value.
\<close>

datatype js_num = NaN | PosInfinity | NegInfinity | Finite rat

text \<open>
  What an array can hold: numbers, strings, booleans, \<open>null\<close>, \<open>undefined\<close> (also
  a hole), BigInts, symbols, plain objects (without conversion methods of their own) and
  arrays of these.
\<close>

datatype js_elem =
    ENum js_num
  | EStr string
  | EBool bool
  | ENull
  | EUndefined
  | EBigInt int
  | ESymbol
  | EObject
  | EArray "js_elem list"

text \<open>
  The argument of the two codec functions, by its runtime shape: a string, an array
  (\<open>Array.isArray\<close>) with its elements, an \<open>ArrayBuffer\<close>, a \<open>Uint8Array\<close>, and
  \<open>COther\<close> for any value of another shape (undefined, null, a boolean, a number,
  a plain object, another typed array or view, ...).
\<close>

datatype codec_input =
    CString string
  | CArray "js_elem list"
  | CArrayBuffer "byte list"
  | CUint8Array "byte list"
  | COther

section \<open>The platform's base64 functions\<close>

text \<open>
  \<open>window.btoa\<close> and \<open>window.atob\<close> are browser built-ins, not code of the
  repository. They are modelled after the HTML standard, which defines them as
  forgiving-base64 encode and decode (RFC 4648 section 4 alphabet, with padding).
\<close>

definition b64_alphabet :: string where
  "b64_alphabet = ''ABCDEFGHIJKLMNOPQRSTUVWXYZabcdefghijklmnopqrstuvwxyz0123456789+/''"

definition b64char :: "nat \<Rightarrow> char" where
  "b64char n = b64_alphabet ! n"

definition b64val :: "char \<Rightarrow> nat option" where
  "b64val c = map_of (zip b64_alphabet [0..<64]) c"

text \<open>Three bytes become four characters; a final group of one or two bytes is padded.\<close>

fun b64_encode :: "nat list \<Rightarrow> string" where
  "b64_encode [] = []"
| "b64_encode [a] =
     [b64char (a div 4), b64char ((a mod 4) * 16), CHR ''='', CHR ''='']"
| "b64_encode [a, b] =
     [b64char (a div 4), b64char ((a mod 4) * 16 + b div 16),
      b64char ((b mod 16) * 4), CHR ''='']"
| "b64_encode (a # b # c # rest) =
     [b64char (a div 4), b64char ((a mod 4) * 16 + b div 16),
      b64char ((b mod 16) * 4 + c div 64), b64char (c mod 64)] @ b64_encode rest"

text \<open>
  \<open>btoa\<close> throws when a code unit exceeds 255; with 8-bit characters that cannot
  happen, so the model is total.
\<close>

definition btoa :: "string \<Rightarrow> string" where
  "btoa s = b64_encode (map of_char s)"

text \<open>
  Forgiving-base64 decode: four 6-bit values give three bytes; of a final group of two
  or three values the unused low bits are discarded without being inspected.
\<close>

fun b64_decode :: "nat list \<Rightarrow> nat list" where
  "b64_decode (p # q # r # s # rest) =
     [p * 4 + q div 16, (q mod 16) * 16 + r div 4, (r mod 4) * 64 + s] @ b64_decode rest"
| "b64_decode [p, q, r] = [p * 4 + q div 16, (q mod 16) * 16 + r div 4]"
| "b64_decode [p, q] = [p * 4 + q div 16]"
| "b64_decode _ = []"

fun sextets :: "string \<Rightarrow> nat list option" where
  "sextets [] = Some []"
| "sextets (c # cs) =
     (case b64val c of
        None \<Rightarrow> None
      | Some v \<Rightarrow> (case sextets cs of None \<Rightarrow> None | Some vs \<Rightarrow> Some (v # vs)))"

definition ascii_whitespace :: "char \<Rightarrow> bool" where
  "ascii_whitespace c \<longleftrightarrow> c \<in> {CHR 0x09, CHR 0x0A, CHR 0x0C, CHR 0x0D, CHR 0x20}"

definition strip_padding2 :: "string \<Rightarrow> string" where
  \<comment> \<open>"if data ends with one or two U+003D (=) code points, remove them"\<close>
  "strip_padding2 d =
     (case rev d of
        e1 # e2 # r \<Rightarrow>
          if e1 = CHR ''='' \<and> e2 = CHR ''='' then rev r
          else if e1 = CHR ''='' then rev (e2 # r) else d
      | [e1] \<Rightarrow> if e1 = CHR ''='' then [] else d
      | [] \<Rightarrow> d)"

definition atob :: "string \<Rightarrow> js_error + string" where
  "atob s =
     (let d = filter (\<lambda>c. \<not> ascii_whitespace c) s;
          d' = (if length d mod 4 = 0 then strip_padding2 d else d)
      in if length d' mod 4 = 1 then Inl InvalidCharacterError
         else (case sextets d' of
                 None \<Rightarrow> Inl InvalidCharacterError
               | Some vs \<Rightarrow> Inr (map char_of (b64_decode vs))))"

section \<open>The codec of \<open>passwordless.ts\<close>\<close>

definition replace_char :: "char \<Rightarrow> char \<Rightarrow> string \<Rightarrow> string" where
  \<comment> \<open>\<open>s.replace(/x/g, 'y')\<close> for a single character \<open>x\<close>\<close>
  "replace_char x y s = map (\<lambda>c. if c = x then y else c) s"

definition strip_trailing_eq :: "string \<Rightarrow> string" where
  \<comment> \<open>\<open>s.replace(/=*$/g, '')\<close>\<close>
  "strip_trailing_eq s = rev (dropWhile (\<lambda>c. c = CHR ''='') (rev s))"

definition base64ToBase64Url :: "string \<Rightarrow> string" where
  "base64ToBase64Url base64 =
     strip_trailing_eq (replace_char CHR ''/'' CHR ''_'' (replace_char CHR ''+'' CHR ''-'' base64))"

definition base64UrlToBase64 :: "string \<Rightarrow> string" where
  "base64UrlToBase64 base64Url =
     replace_char CHR ''_'' CHR ''/'' (replace_char CHR ''-'' CHR ''+'' base64Url)"

definition not_string_msg :: string where
  "not_string_msg = ''Cannot convert from Base64Url to ArrayBuffer: Input was not of type string''"

definition not_buffer_msg :: string where
  "not_buffer_msg = ''Cannot convert from ArrayBuffer to Base64Url. Input was not of type ArrayBuffer, Uint8Array or Array''"

definition padEnd :: "string \<Rightarrow> nat \<Rightarrow> string" where
  \<comment> \<open>\<open>s.padEnd(n, "=")\<close>\<close>
  "padEnd s n = s @ replicate (n - length s) CHR ''=''"

definition decode_text :: "string \<Rightarrow> js_error + byte list" where
  "decode_text base64UrlString =
     (let base64Unpadded = base64UrlToBase64 base64UrlString;
          paddingNeeded = (4 - (length base64Unpadded mod 4)) mod 4;
          base64Padded = padEnd base64Unpadded (length base64Unpadded + paddingNeeded)
      in case atob base64Padded of
           Inl e \<Rightarrow> Inl e
         | Inr binary \<Rightarrow> Inr (map (\<lambda>c. word_of_nat (of_char c)) binary))"

fun base64UrlToArrayBuffer :: "codec_input \<Rightarrow> js_error + byte list" where
  "base64UrlToArrayBuffer (CString s) = decode_text s"
| "base64UrlToArrayBuffer _ = Inl (TypeError not_string_msg)"

definition encode_bytes :: "byte list \<Rightarrow> string" where
  \<comment> \<open>the loop \<open>string += String.fromCharCode(uint8Array[i])\<close>, then \<open>btoa\<close>\<close>
  "encode_bytes uint8Array =
     base64ToBase64Url (btoa (map (\<lambda>b. char_of (unat b)) uint8Array))"

subsection \<open>\<open>Uint8Array.from\<close> on an array\<close>

text \<open>
  \<open>Uint8Array.from(array)\<close> is a built-in of the engine. It stores each element with
  the conversions of the language standard: \<open>ToNumber\<close>, then \<open>ToUint8\<close> (drop the
  fraction, reduce modulo 256; 0 for not-a-number and the infinities). The number a string
  converts to is the parameter \<open>tn\<close>; what does not depend on the engine is written out.
\<close>

fun decimal :: "nat \<Rightarrow> string" where
  "decimal n =
     (if n < 10 then [char_of (48 + n)] else decimal (n div 10) @ [char_of (48 + n mod 10)])"

definition int_text :: "int \<Rightarrow> string" where
  "int_text n = (if n < 0 then CHR ''-'' # decimal (nat (- n)) else decimal (nat n))"

fun has_symbol :: "js_elem \<Rightarrow> bool" where
  "has_symbol ESymbol = True"
| "has_symbol (EArray xs) = (\<exists>x \<in> set xs. has_symbol x)"
| "has_symbol _ = False"

text \<open>
  An array becomes a number through its text, the texts of its elements joined by commas
  (nothing for \<open>null\<close> and \<open>undefined\<close>). The empty text is 0; a text with a comma,
  \<open>true\<close>, \<open>false\<close> and \<open>[object Object]\<close> are no numeric literals; the text of a
  number converts back to that number.
\<close>

fun joined_number :: "(string \<Rightarrow> js_num) \<Rightarrow> js_elem list \<Rightarrow> js_num" where
  "joined_number tn [] = Finite 0"
| "joined_number tn [x] =
     (case x of
        ENum n \<Rightarrow> n
      | EStr s \<Rightarrow> tn s
      | EBool b \<Rightarrow> NaN
      | ENull \<Rightarrow> Finite 0
      | EUndefined \<Rightarrow> Finite 0
      | EBigInt n \<Rightarrow> tn (int_text n)
      | ESymbol \<Rightarrow> NaN
      | EObject \<Rightarrow> NaN
      | EArray ys \<Rightarrow> joined_number tn ys)"
| "joined_number tn (x # y # zs) = NaN"

fun to_number :: "(string \<Rightarrow> js_num) \<Rightarrow> js_elem \<Rightarrow> js_error + js_num" where
  "to_number tn (ENum n) = Inr n"
| "to_number tn (EStr s) = Inr (tn s)"
| "to_number tn (EBool b) = Inr (Finite (if b then 1 else 0))"
| "to_number tn ENull = Inr (Finite 0)"
| "to_number tn EUndefined = Inr NaN"
| "to_number tn (EBigInt n) = Inl ConversionTypeError"
| "to_number tn ESymbol = Inl ConversionTypeError"
| "to_number tn EObject = Inr NaN"
| "to_number tn (EArray xs) =
     (if has_symbol (EArray xs) then Inl ConversionTypeError else Inr (joined_number tn xs))"

fun to_uint8 :: "js_num \<Rightarrow> byte" where
  "to_uint8 (Finite q) = word_of_int (if q < 0 then - \<lfloor>- q\<rfloor> else \<lfloor>q\<rfloor>)"
| "to_uint8 _ = 0"

fun uint8_from :: "(string \<Rightarrow> js_num) \<Rightarrow> js_elem list \<Rightarrow> js_error + byte list" where
  "uint8_from tn [] = Inr []"
| "uint8_from tn (x # xs) =
     (case to_number tn x of
        Inl err \<Rightarrow> Inl err
      | Inr n \<Rightarrow>
          (case uint8_from tn xs of Inl err \<Rightarrow> Inl err | Inr bs \<Rightarrow> Inr (to_uint8 n # bs)))"

subsection \<open>Encoding\<close>

fun arrayBufferToBase64Url :: "(string \<Rightarrow> js_num) \<Rightarrow> codec_input \<Rightarrow> js_error + string" where
  "arrayBufferToBase64Url tn (CArray xs) =
     (case uint8_from tn xs of Inl err \<Rightarrow> Inl err | Inr bs \<Rightarrow> Inr (encode_bytes bs))"
| "arrayBufferToBase64Url tn (CArrayBuffer bs) = Inr (encode_bytes bs)"
| "arrayBufferToBase64Url tn (CUint8Array bs) = Inr (encode_bytes bs)"
| "arrayBufferToBase64Url tn _ = Inl (Error not_buffer_msg)"

section \<open>Auxiliary notions for the codec proofs\<close>

text \<open>The 6-bit values that \<open>b64_encode\<close> turns into characters, before padding.\<close>

fun b64_sextets :: "nat list \<Rightarrow> nat list" where
  "b64_sextets [] = []"
| "b64_sextets [a] = [a div 4, (a mod 4) * 16]"
| "b64_sextets [a, b] = [a div 4, (a mod 4) * 16 + b div 16, (b mod 16) * 4]"
| "b64_sextets (a # b # c # rest) =
     [a div 4, (a mod 4) * 16 + b div 16, (b mod 16) * 4 + c div 64, c mod 64] @ b64_sextets rest"

definition pad_count :: "nat \<Rightarrow> nat" where
  "pad_count n = (3 - n mod 3) mod 3"

text \<open>What the two replacement chains do to one character.\<close>

definition url_char :: "char \<Rightarrow> char" where
  "url_char c = (let c1 = (if c = CHR ''+'' then CHR ''-'' else c)
                 in if c1 = CHR ''/'' then CHR ''_'' else c1)"

definition std_char :: "char \<Rightarrow> char" where
  "std_char c = (let c1 = (if c = CHR ''-'' then CHR ''+'' else c)
                 in if c1 = CHR ''_'' then CHR ''/'' else c1)"

text \<open>
  Canonical wire text: only characters of the URL-safe alphabet, no padding, a length
  that base64 can have, and the bits of the last character that no byte uses are zero
  (after two characters of a final group four bits are unused, so the last character is
  one of \<open>A Q g w\<close>; after three, two bits are unused).
\<close>

definition url_alphabet :: string where
  "url_alphabet = ''ABCDEFGHIJKLMNOPQRSTUVWXYZabcdefghijklmnopqrstuvwxyz0123456789-_''"

definition canonical_wire_text :: "string \<Rightarrow> bool" where
  "canonical_wire_text t \<longleftrightarrow>
     set t \<subseteq> set url_alphabet \<and> length t mod 4 \<noteq> 1 \<and>
     (length t mod 4 = 2 \<longrightarrow> last t \<in> set ''AQgw'') \<and>
     (length t mod 4 = 3 \<longrightarrow> last t \<in> set ''AEIMQUYcgkosw048'')"

fun canonical_sextets :: "nat list \<Rightarrow> bool" where
  "canonical_sextets (p # q # r # s # rest) = canonical_sextets rest"
| "canonical_sextets [p, q, r] = (r mod 4 = 0)"
| "canonical_sextets [p, q] = (q mod 16 = 0)"
| "canonical_sextets [p] = False"
| "canonical_sextets [] = True"

section \<open>JavaScript values, thrown values and the environment\<close>

text \<open>
  Data as JSON delivers it (\<open>response.json()\<close>), plus \<open>undefined\<close> and byte buffers,
  which the ceremonies put into the options they pass to the authenticator. An object is
  the list of its own properties, each name once.
\<close>

datatype jsval =
    JUndefined
  | JNull
  | JBool bool
  | JNum int
  | JStr string
  | JBytes "byte list"
  | JArr "jsval list"
  | JObj "(string \<times> jsval) list"

text \<open>
  Errors the JavaScript engine raises by itself, where the source has no check. Their
  message texts differ between engines and are a parameter of the environment.
\<close>

datatype fault =
    NullAccess string   \<comment> \<open>reading this property of \<open>null\<close> or \<open>undefined\<close>\<close>
  | NotCallable string  \<comment> \<open>calling this property, which is not a function\<close>
  | AtobFailure         \<comment> \<open>the \<open>InvalidCharacterError\<close> of \<open>atob\<close>\<close>
  | ToNumberFailure     \<comment> \<open>the \<open>TypeError\<close> of converting a BigInt or a Symbol to a number\<close>
  | ToStringFailure     \<comment> \<open>the \<open>TypeError\<close> of \<open>String(v)\<close> for an object it cannot convert\<close>

text \<open>
  What a \<open>catch\<close> clause can receive:
  \<^item> an error object with its name and message;
  \<^item> an engine fault (also an error object);
  \<^item> plain data;
  \<^item> a function or a symbol;
  \<^item> an object that contains itself, given by its other properties. The flag says
    whether \<open>String\<close> can convert it: it can for an ordinary object and gives
    \<open>[object Object]\<close>; it cannot, and throws a \<open>TypeError\<close>, for an object without
    prototype (\<open>Object.create(null)\<close>) or with a \<open>toString\<close> that throws.
\<close>

datatype caught =
    ErrorObject string string
  | PlatformFault fault
  | Plain jsval
  | FunctionOrSymbol
  | Cyclic bool "(string \<times> jsval) list"

fun of_js_error :: "js_error \<Rightarrow> caught" where
  "of_js_error (TypeError m) = ErrorObject ''TypeError'' m"
| "of_js_error (Error m) = ErrorObject ''Error'' m"
| "of_js_error InvalidCharacterError = PlatformFault AtobFailure"
| "of_js_error ConversionTypeError = PlatformFault ToNumberFailure"

fun truthy :: "jsval \<Rightarrow> bool" where
  "truthy JUndefined = False"
| "truthy JNull = False"
| "truthy (JBool b) = b"
| "truthy (JNum n) = (n \<noteq> 0)"
| "truthy (JStr s) = (s \<noteq> [])"
| "truthy _ = True"

text \<open>
  Reading a property. Only the names the source reads occur (\<open>error\<close>, \<open>data\<close>,
  \<open>session\<close>, \<open>challenge\<close>, \<open>user\<close>, \<open>id\<close>, \<open>excludeCredentials\<close>,
  \<open>allowCredentials\<close>); none of them exists on a primitive, an array or a byte buffer.
\<close>

fun get_prop :: "jsval \<Rightarrow> string \<Rightarrow> caught + jsval" where
  "get_prop JUndefined name = Inl (PlatformFault (NullAccess name))"
| "get_prop JNull name = Inl (PlatformFault (NullAccess name))"
| "get_prop (JObj fs) name = (case map_of fs name of Some v \<Rightarrow> Inr v | None \<Rightarrow> Inr JUndefined)"
| "get_prop _ name = Inr JUndefined"

text \<open>Writing a property keeps its place if the object has it, and appends it otherwise.\<close>

fun set_prop :: "(string \<times> jsval) list \<Rightarrow> string \<Rightarrow> jsval \<Rightarrow> (string \<times> jsval) list" where
  "set_prop [] name v = [(name, v)]"
| "set_prop ((k, w) # fs) name v =
     (if k = name then (name, v) # fs else (k, w) # set_prop fs name v)"

fun put_prop :: "jsval \<Rightarrow> string \<Rightarrow> jsval \<Rightarrow> jsval" where
  "put_prop (JObj fs) name v = JObj (set_prop fs name v)"
| "put_prop other name v = other"

text \<open>
  The own enumerable properties that object spread \<open>{...v}\<close> copies: those of an
  object, the indexed elements of an array, string or byte buffer, nothing for
  \<open>null\<close>, \<open>undefined\<close>, a boolean or a number.
\<close>

definition indexed :: "jsval list \<Rightarrow> (string \<times> jsval) list" where
  "indexed vs = zip (map decimal [0..<length vs]) vs"

fun spread :: "jsval \<Rightarrow> (string \<times> jsval) list" where
  "spread (JObj fs) = fs"
| "spread (JArr vs) = indexed vs"
| "spread (JStr s) = indexed (map (\<lambda>c. JStr [c]) s)"
| "spread (JBytes bs) = indexed (map (\<lambda>b. JNum (uint b)) bs)"
| "spread _ = []"

subsection \<open>The browser and the backend\<close>

text \<open>
  \<open>window.PublicKeyCredential\<close>: absent (\<open>undefined\<close>; \<open>null\<close> behaves alike
  here), some other value that is not a function, or the constructor. The argument says
  whether the value has a member \<open>isConditionalMediationAvailable\<close> and, if so, what
  its promise resolves to.
\<close>

datatype pkc =
    PkcAbsent
  | PkcNonFunction "bool option"
  | PkcFunction "bool option"

datatype fetch_outcome =
    FetchRejected caught
  | FetchResponse bool "caught + jsval"
    \<comment> \<open>\<open>response.ok\<close> and the outcome of \<open>response.json()\<close>\<close>

record credential =
  cred_id :: string
  rawId :: "byte list"
  cred_type :: string
  extensions :: jsval
  response :: "(string \<times> byte list) list"
    \<comment> \<open>the \<open>ArrayBuffer\<close> members of \<open>credential.response\<close>, by name\<close>

datatype credential_outcome =
    CredRejected caught
  | CredResolved "credential option"  \<comment> \<open>\<open>None\<close> is \<open>null\<close>\<close>

datatype stringify_outcome =
    Text string
  | NoText  \<comment> \<open>\<open>JSON.stringify\<close> returned \<open>undefined\<close>\<close>
  | StringifyThrows

text \<open>
  Everything outside the repository that the client calls: the backend behind
  \<open>fetch\<close> (by URL and request body), the authenticator behind
  \<open>navigator.credentials\<close>, and the texts and numbers of the engine's conversions:
  the message of a fault, the text \<open>JSON.stringify\<close> returns for plain data, the text
  \<open>String\<close> returns where it returns one, and the number a string converts to.
  Whether \<open>JSON.stringify\<close> and \<open>String\<close> return a text at all is decided by the
  kind of value, in \<open>json_stringify\<close> and \<open>string_conversion\<close> below.
\<close>

record env =
  publicKeyCredential :: pkc
  fetch :: "string \<Rightarrow> jsval \<Rightarrow> fetch_outcome"
  credentials_create :: "jsval \<Rightarrow> credential_outcome"
  credentials_get :: "jsval \<Rightarrow> string option \<Rightarrow> nat \<Rightarrow> credential_outcome"
    \<comment> \<open>options, mediation, and the abort controller whose signal is passed\<close>
  fault_message :: "fault \<Rightarrow> string"
  json_text :: "jsval \<Rightarrow> string"
  string_text :: "caught \<Rightarrow> string"
  string_to_number :: "string \<Rightarrow> js_num"

record client_config =
  apiUrl :: string
  apiKey :: string
  origin :: string
  rpid :: string

text \<open>
  The state of a \<open>Client\<close>: its configuration and its abort controller. Controllers
  are numbered in the order of their creation; \<open>aborted\<close> holds those whose signal has
  fired.
\<close>

record client =
  config :: client_config
  abortController :: nat
  aborted :: "nat set"
  next_controller :: nat

definition new_client :: "client_config \<Rightarrow> client" where
  "new_client cfg = \<lparr>config = cfg, abortController = 0, aborted = {}, next_controller = 1\<rparr>"

text \<open>What the client does to the outside, in order.\<close>

datatype event =
    EFetch string "(string \<times> string) list" jsval  \<comment> \<open>URL, headers, request body\<close>
  | ECreate jsval  \<comment> \<open>\<open>navigator.credentials.create\<close> with these \<open>publicKey\<close> options\<close>
  | EGet jsval "string option" nat
      \<comment> \<open>\<open>navigator.credentials.get\<close>: \<open>publicKey\<close>, \<open>mediation\<close>, controller of the \<open>signal\<close>\<close>
  | EAbort nat  \<comment> \<open>\<open>abort()\<close> on this controller\<close>

section \<open>The ceremonies of \<open>Client\<close>\<close>

text \<open>
  A piece of client code takes the client's state and gives its completion (\<open>Inl\<close> a
  thrown value or rejected promise, \<open>Inr\<close> the value), the new state and the events
  it caused. An \<open>await\<close> is sequencing: one ceremony is followed from its start to its
  end. How two sign-ins interleave at their \<open>await\<close> points is the subject of the
  step model further down. Calls of \<open>console.error\<close> are left out.
\<close>

type_synonym 'a comp = "client \<Rightarrow> (caught + 'a) \<times> client \<times> event list"

definition ret :: "'a \<Rightarrow> 'a comp" where
  "ret x = (\<lambda>c. (Inr x, c, []))"

definition throw :: "caught \<Rightarrow> 'a comp" where
  "throw x = (\<lambda>c. (Inl x, c, []))"

definition lift :: "caught + 'a \<Rightarrow> 'a comp" where
  "lift r = (\<lambda>c. (r, c, []))"

definition emit :: "event \<Rightarrow> unit comp" where
  "emit ev = (\<lambda>c. (Inr (), c, [ev]))"

definition andThen :: "'a comp \<Rightarrow> ('a \<Rightarrow> 'b comp) \<Rightarrow> 'b comp" where
  "andThen m f = (\<lambda>c.
     case m c of
       (Inl x, c1, t) \<Rightarrow> (Inl x, c1, t)
     | (Inr v, c1, t) \<Rightarrow> (case f v c1 of (r, c2, t') \<Rightarrow> (r, c2, t @ t')))"

definition try_catch :: "'a comp \<Rightarrow> (caught \<Rightarrow> 'a comp) \<Rightarrow> 'a comp" where
  "try_catch m h = (\<lambda>c.
     case m c of
       (Inl x, c1, t) \<Rightarrow> (case h x c1 of (r, c2, t') \<Rightarrow> (r, c2, t @ t'))
     | (Inr v, c1, t) \<Rightarrow> (Inr v, c1, t))"

subsection \<open>Capability probe\<close>

definition isBrowserSupported :: "env \<Rightarrow> bool" where
  "isBrowserSupported e = (case publicKeyCredential e of PkcFunction _ \<Rightarrow> True | _ \<Rightarrow> False)"

definition isAutofillSupported :: "env \<Rightarrow> bool comp" where
  "isAutofillSupported e =
     (case publicKeyCredential e of
        PkcAbsent \<Rightarrow> throw (PlatformFault (NullAccess ''isConditionalMediationAvailable''))
      | PkcNonFunction m \<Rightarrow> (case m of None \<Rightarrow> ret False | Some b \<Rightarrow> ret b)
      | PkcFunction m \<Rightarrow> (case m of None \<Rightarrow> ret False | Some b \<Rightarrow> ret b))"

definition unsupported_msg :: string where
  "unsupported_msg = ''WebAuthn and PublicKeyCredentials are not supported on this browser/device''"

definition assertBrowserSupported :: "env \<Rightarrow> unit comp" where
  "assertBrowserSupported e =
     (if \<not> isBrowserSupported e then throw (ErrorObject ''Error'' unsupported_msg) else ret ())"

subsection \<open>Error normalizer\<close>

fun message_field :: "(string \<times> jsval) list \<Rightarrow> string option" where
  "message_field fs = (case map_of fs ''message'' of Some (JStr m) \<Rightarrow> Some m | _ \<Rightarrow> None)"

text \<open>
  The \<open>message\<close> of a value that passes \<open>isErrorWithMessage\<close>: an object, not
  \<open>null\<close>, with a property \<open>message\<close> that is a string.
\<close>

fun string_message :: "env \<Rightarrow> caught \<Rightarrow> string option" where
  "string_message e (ErrorObject name m) = Some m"
| "string_message e (PlatformFault f) = Some (fault_message e f)"
| "string_message e (Plain (JObj fs)) = message_field fs"
| "string_message e (Plain _) = None"
| "string_message e FunctionOrSymbol = None"
| "string_message e (Cyclic convertible fs) = message_field fs"

definition isErrorWithMessage :: "env \<Rightarrow> caught \<Rightarrow> bool" where
  "isErrorWithMessage e x = (string_message e x \<noteq> None)"

text \<open>
  \<open>JSON.stringify(v)\<close>: no text but \<open>undefined\<close> for \<open>undefined\<close>, a function or a
  symbol; a \<open>TypeError\<close> for an object that contains itself; \<open>{}\<close> for an error object,
  whose properties are not enumerable; the engine's text for other data.
\<close>

fun json_stringify :: "env \<Rightarrow> caught \<Rightarrow> stringify_outcome" where
  "json_stringify e (Plain v) = (if v = JUndefined then NoText else Text (json_text e v))"
| "json_stringify e FunctionOrSymbol = NoText"
| "json_stringify e (Cyclic convertible fs) = StringifyThrows"
| "json_stringify e (ErrorObject name m) = Text ''{}''"
| "json_stringify e (PlatformFault f) = Text ''{}''"

text \<open>\<open>String(v)\<close>, which throws for an object that it cannot convert.\<close>

fun string_conversion :: "env \<Rightarrow> caught \<Rightarrow> caught + string" where
  "string_conversion e (Cyclic convertible fs) =
     (if convertible then Inr ''[object Object]'' else Inl (PlatformFault ToStringFailure))"
| "string_conversion e x = Inr (string_text e x)"

definition toErrorWithMessage :: "env \<Rightarrow> caught \<Rightarrow> caught + string" where
  \<comment> \<open>the result is given by its \<open>message\<close>; \<open>new Error(undefined)\<close> has the message \<open>""\<close>.
      The inner \<open>try\<close> covers \<open>JSON.stringify\<close>; \<open>String\<close> is called in its \<open>catch\<close>
      block, so what \<open>String\<close> throws leaves the function.\<close>
  "toErrorWithMessage e maybeError =
     (case string_message e maybeError of
        Some m \<Rightarrow> Inr m
      | None \<Rightarrow>
          (case json_stringify e maybeError of
             Text s \<Rightarrow> Inr s
           | NoText \<Rightarrow> Inr []
           | StringifyThrows \<Rightarrow> string_conversion e maybeError))"

definition getErrorMessage :: "env \<Rightarrow> caught \<Rightarrow> caught + string" where
  "getErrorMessage e x = toErrorWithMessage e x"

definition client_error :: "string \<Rightarrow> string \<Rightarrow> jsval" where
  "client_error code title =
     JObj [(''error'', JObj [(''from'', JStr ''client''), (''errorCode'', JStr code),
                             (''title'', JStr title)])]"

definition catch_unknown :: "env \<Rightarrow> caught \<Rightarrow> jsval comp" where
  \<comment> \<open>the \<open>catch (caughtError)\<close> block of \<open>register\<close> and of \<open>signin\<close>\<close>
  "catch_unknown e caughtError =
     andThen (lift (getErrorMessage e caughtError))
       (\<lambda>errorMessage. ret (client_error ''unknown'' errorMessage))"

subsection \<open>Requests to the backend\<close>

definition createHeaders :: "client_config \<Rightarrow> (string \<times> string) list" where
  "createHeaders cfg =
     [(''ApiKey'', apiKey cfg), (''Content-Type'', ''application/json''),
      (''Client-Version'', ''js-1.1.0'')]"

definition server_error :: "jsval \<Rightarrow> jsval" where
  \<comment> \<open>\<open>{ error: {...res, from: "server"} }\<close>\<close>
  "server_error res = JObj [(''error'', JObj (set_prop (spread res) ''from'' (JStr ''server'')))]"

text \<open>
  The four request functions of the source share everything after the \<open>fetch\<close> call:
  \<open>const res = await response.json(); if (response.ok) return res; return {error: ...}\<close>.
\<close>

definition post :: "env \<Rightarrow> string \<Rightarrow> jsval \<Rightarrow> jsval comp" where
  "post e path body = (\<lambda>c.
     (let url = apiUrl (config c) @ path in
      andThen (emit (EFetch url (createHeaders (config c)) body))
        (\<lambda>_. case fetch e url body of
                FetchRejected x \<Rightarrow> throw x
              | FetchResponse ok j \<Rightarrow>
                  andThen (lift j) (\<lambda>res. if ok then ret res else ret (server_error res)))) c)"

definition registerBegin :: "env \<Rightarrow> string \<Rightarrow> jsval comp" where
  "registerBegin e token = (\<lambda>c.
     post e ''/register/begin''
       (JObj [(''token'', JStr token), (''RPID'', JStr (rpid (config c))),
              (''Origin'', JStr (origin (config c)))]) c)"

definition response_member :: "credential \<Rightarrow> string \<Rightarrow> codec_input" where
  "response_member cr name =
     (case map_of (response cr) name of Some bs \<Rightarrow> CArrayBuffer bs | None \<Rightarrow> COther)"

definition encode :: "env \<Rightarrow> codec_input \<Rightarrow> jsval comp" where
  "encode e x =
     (case arrayBufferToBase64Url (string_to_number e) x of
        Inl err \<Rightarrow> throw (of_js_error err)
      | Inr s \<Rightarrow> ret (JStr s))"

definition registerComplete :: "env \<Rightarrow> credential \<Rightarrow> jsval \<Rightarrow> string \<Rightarrow> jsval comp" where
  "registerComplete e credential session credentialNickname = (\<lambda>c.
     andThen (encode e (CArrayBuffer (rawId credential))) (\<lambda>raw.
     andThen (encode e (response_member credential ''attestationObject'')) (\<lambda>att.
     andThen (encode e (response_member credential ''clientDataJSON'')) (\<lambda>cdj.
       post e ''/register/complete''
         (JObj [(''session'', session),
                (''response'', JObj [(''id'', JStr (cred_id credential)), (''rawId'', raw),
                   (''type'', JStr (cred_type credential)),
                   (''extensions'', extensions credential),
                   (''response'', JObj [(''AttestationObject'', att), (''clientDataJson'', cdj)])]),
                (''nickname'', JStr credentialNickname),
                (''RPID'', JStr (rpid (config c))),
                (''Origin'', JStr (origin (config c)))])))) c)"

datatype signin_method = UserId string | Alias string | Autofill | Discoverable

definition signin_body :: "client_config \<Rightarrow> signin_method \<Rightarrow> jsval" where
  "signin_body cfg signinMethod =
     JObj [(''userId'', case signinMethod of UserId u \<Rightarrow> JStr u | _ \<Rightarrow> JUndefined),
           (''alias'', case signinMethod of Alias a \<Rightarrow> JStr a | _ \<Rightarrow> JUndefined),
           (''RPID'', JStr (rpid cfg)), (''Origin'', JStr (origin cfg))]"

definition signinBegin :: "env \<Rightarrow> signin_method \<Rightarrow> jsval comp" where
  "signinBegin e signinMethod = (\<lambda>c.
     post e ''/signin/begin'' (signin_body (config c) signinMethod) c)"

definition signinComplete :: "env \<Rightarrow> credential option \<Rightarrow> jsval \<Rightarrow> jsval comp" where
  "signinComplete e credential session = (\<lambda>c.
     (case credential of
        None \<Rightarrow> throw (PlatformFault (NullAccess ''response''))
      | Some cr \<Rightarrow>
          andThen (encode e (CUint8Array (rawId cr))) (\<lambda>raw.
          andThen (encode e (response_member cr ''authenticatorData'')) (\<lambda>ad.
          andThen (encode e (response_member cr ''clientDataJSON'')) (\<lambda>cdj.
          andThen (encode e (response_member cr ''signature'')) (\<lambda>sig.
            post e ''/signin/complete''
              (JObj [(''session'', session),
                     (''response'', JObj [(''id'', JStr (cred_id cr)), (''rawId'', raw),
                        (''type'', JStr (cred_type cr)),
                        (''extensions'', extensions cr),
                        (''response'', JObj [(''authenticatorData'', ad),
                           (''clientDataJson'', cdj), (''signature'', sig)])]),
                     (''RPID'', JStr (rpid (config c))),
                     (''Origin'', JStr (origin (config c)))])))))) c)"

subsection \<open>Decoding the options\<close>

fun codec_arg :: "jsval \<Rightarrow> codec_input" where
  "codec_arg (JStr s) = CString s"
| "codec_arg (JBytes bs) = CUint8Array bs"
| "codec_arg _ = COther"

definition decode_prop :: "jsval \<Rightarrow> string \<Rightarrow> caught + jsval" where
  \<comment> \<open>\<open>obj.name = base64UrlToArrayBuffer(obj.name)\<close>; gives the object after the assignment\<close>
  "decode_prop obj name =
     (case get_prop obj name of
        Inl x \<Rightarrow> Inl x
      | Inr v \<Rightarrow>
          (case base64UrlToArrayBuffer (codec_arg v) of
             Inl err \<Rightarrow> Inl (of_js_error err)
           | Inr bs \<Rightarrow> Inr (put_prop obj name (JBytes bs))))"

fun decode_ids :: "jsval list \<Rightarrow> caught + jsval list" where
  \<comment> \<open>the callback \<open>(cred) => { cred.id = base64UrlToArrayBuffer(cred.id) }\<close>, element by element\<close>
  "decode_ids [] = Inr []"
| "decode_ids (cred # creds) =
     (case decode_prop cred ''id'' of
        Inl x \<Rightarrow> Inl x
      | Inr cred' \<Rightarrow> (case decode_ids creds of Inl x \<Rightarrow> Inl x | Inr creds' \<Rightarrow> Inr (cred' # creds')))"

fun decode_credentials :: "jsval \<Rightarrow> caught + jsval" where
  \<comment> \<open>\<open>list?.forEach(...)\<close>: skipped on \<open>null\<close> and \<open>undefined\<close>\<close>
  "decode_credentials JUndefined = Inr JUndefined"
| "decode_credentials JNull = Inr JNull"
| "decode_credentials (JArr creds) =
     (case decode_ids creds of Inl x \<Rightarrow> Inl x | Inr creds' \<Rightarrow> Inr (JArr creds'))"
| "decode_credentials (JBytes bs) =
     (if bs = [] then Inr (JBytes bs) else Inl (ErrorObject ''TypeError'' not_string_msg))"
| "decode_credentials _ = Inl (PlatformFault (NotCallable ''forEach''))"

definition decode_list_prop :: "jsval \<Rightarrow> string \<Rightarrow> caught + jsval" where
  \<comment> \<open>\<open>obj.name?.forEach(...)\<close>; the elements of an array are changed in place\<close>
  "decode_list_prop obj name =
     (case get_prop obj name of
        Inl x \<Rightarrow> Inl x
      | Inr v \<Rightarrow>
          (case decode_credentials v of
             Inl x \<Rightarrow> Inl x
           | Inr v' \<Rightarrow> Inr (case v of JArr _ \<Rightarrow> put_prop obj name v' | _ \<Rightarrow> obj)))"

definition bindE :: "caught + 'a \<Rightarrow> ('a \<Rightarrow> caught + 'b) \<Rightarrow> caught + 'b" where
  "bindE r f = (case r of Inl x \<Rightarrow> Inl x | Inr v \<Rightarrow> f v)"

subsection \<open>Registration\<close>

definition decode_registration :: "jsval \<Rightarrow> caught + jsval" where
  \<comment> \<open>the three decoding statements of \<open>register\<close>; gives \<open>registration.data\<close> after them\<close>
  "decode_registration registration =
     bindE (get_prop registration ''data'') (\<lambda>data.
     bindE (decode_prop data ''challenge'') (\<lambda>data1.
     bindE (get_prop data1 ''user'') (\<lambda>user.
     bindE (decode_prop user ''id'') (\<lambda>user1.
       decode_list_prop (put_prop data1 ''user'' user1) ''excludeCredentials''))))"

definition failed_create_title :: string where
  "failed_create_title = ''Failed to create credential (navigator.credentials.create returned null)''"

definition credentials_create_call :: "env \<Rightarrow> jsval \<Rightarrow> credential option comp" where
  "credentials_create_call e publicKey =
     andThen (emit (ECreate publicKey))
       (\<lambda>_. case credentials_create e publicKey of
               CredRejected x \<Rightarrow> throw x
             | CredResolved cr \<Rightarrow> ret cr)"

definition register_body :: "env \<Rightarrow> string \<Rightarrow> string \<Rightarrow> jsval comp" where
  \<comment> \<open>the \<open>try\<close> block of \<open>register\<close>\<close>
  "register_body e token credentialNickname =
     andThen (assertBrowserSupported e) (\<lambda>_.
     andThen (registerBegin e token) (\<lambda>registration.
     andThen (lift (get_prop registration ''error'')) (\<lambda>err.
       if truthy err then ret (JObj [(''error'', err)])
       else
         andThen (lift (decode_registration registration)) (\<lambda>publicKey.
         andThen (credentials_create_call e publicKey) (\<lambda>credential.
           case credential of
             None \<Rightarrow> ret (client_error ''failed_create_credential'' failed_create_title)
           | Some cr \<Rightarrow>
               andThen (lift (get_prop registration ''session'')) (\<lambda>session.
                 registerComplete e cr session credentialNickname))))))"

definition register :: "env \<Rightarrow> string \<Rightarrow> string \<Rightarrow> jsval comp" where
  "register e token credentialNickname =
     try_catch (register_body e token credentialNickname) (catch_unknown e)"

subsection \<open>Sign-in\<close>

definition abort :: "unit comp" where
  "abort = (\<lambda>c. (Inr (), c\<lparr>aborted := insert (abortController c) (aborted c)\<rparr>,
                  [EAbort (abortController c)]))"

definition handleAbort :: "unit comp" where
  "handleAbort =
     andThen abort (\<lambda>_ c.
       (Inr (), c\<lparr>abortController := next_controller c,
                   next_controller := Suc (next_controller c)\<rparr>, []))"

definition credentials_get_call :: "env \<Rightarrow> jsval \<Rightarrow> string option \<Rightarrow> credential option comp" where
  \<comment> \<open>the signal is read from \<open>this.abortController\<close> when the call is made\<close>
  "credentials_get_call e publicKey mediation = (\<lambda>c.
     andThen (emit (EGet publicKey mediation (abortController c)))
       (\<lambda>_. case credentials_get e publicKey mediation (abortController c) of
               CredRejected x \<Rightarrow> throw x
             | CredResolved cr \<Rightarrow> ret cr) c)"

definition decode_signin :: "jsval \<Rightarrow> caught + jsval" where
  \<comment> \<open>the two decoding statements of \<open>signin\<close>; gives \<open>signin.data\<close> after them\<close>
  "decode_signin signin =
     bindE (get_prop signin ''data'') (\<lambda>data.
     bindE (decode_prop data ''challenge'') (\<lambda>data1.
       decode_list_prop data1 ''allowCredentials''))"

definition signin_body_run :: "env \<Rightarrow> signin_method option \<Rightarrow> jsval comp" where
  \<comment> \<open>the \<open>try\<close> block of \<open>signin\<close>\<close>
  "signin_body_run e signinMethod0 =
     andThen (assertBrowserSupported e) (\<lambda>_.
     andThen handleAbort (\<lambda>_.
     (let signinMethod = (case signinMethod0 of None \<Rightarrow> Discoverable | Some m \<Rightarrow> m) in
     andThen (signinBegin e signinMethod) (\<lambda>signin.
     andThen (lift (get_prop signin ''error'')) (\<lambda>err.
       if truthy err then ret signin
       else
         andThen (lift (decode_signin signin)) (\<lambda>publicKey.
         andThen (credentials_get_call e publicKey
                    (case signinMethod of Autofill \<Rightarrow> Some ''conditional'' | _ \<Rightarrow> None))
           (\<lambda>credential.
              andThen (lift (get_prop signin ''session'')) (\<lambda>session.
                signinComplete e credential session))))))))"

definition signin :: "env \<Rightarrow> signin_method option \<Rightarrow> jsval comp" where
  "signin e signinMethod = try_catch (signin_body_run e signinMethod) (catch_unknown e)"

definition signinWithId :: "env \<Rightarrow> string \<Rightarrow> jsval comp" where
  "signinWithId e userId = signin e (Some (UserId userId))"

definition signinWithAlias :: "env \<Rightarrow> string \<Rightarrow> jsval comp" where
  "signinWithAlias e alias = signin e (Some (Alias alias))"

definition autofill_msg :: string where
  "autofill_msg = ''Autofill authentication (conditional meditation) is not supported in this browser''"

definition signinWithAutofill :: "env \<Rightarrow> jsval comp" where
  "signinWithAutofill e =
     andThen (isAutofillSupported e) (\<lambda>supported.
       if \<not> supported then throw (ErrorObject ''Error'' autofill_msg)
       else signin e (Some Autofill))"

definition signinWithDiscoverable :: "env \<Rightarrow> jsval comp" where
  "signinWithDiscoverable e = signin e (Some Discoverable)"

subsection \<open>What the caller of an \<open>async\<close> method observes\<close>

text \<open>
  Every ceremony entry point is declared \<open>async\<close>: whatever its body throws, also
  before its first \<open>await\<close>, rejects the returned promise; the call itself never
  throws.
\<close>

datatype outcome =
    ThrownSynchronously caught
  | PromiseRejected caught
  | PromiseResolved jsval

definition async :: "jsval comp \<Rightarrow> client \<Rightarrow> outcome \<times> client \<times> event list" where
  "async m c =
     (case m c of
        (Inl x, c', t) \<Rightarrow> (PromiseRejected x, c', t)
      | (Inr v, c', t) \<Rightarrow> (PromiseResolved v, c', t))"

definition fetches :: "event list \<Rightarrow> (string \<times> jsval) list" where
  "fetches t = concat (map (\<lambda>ev. case ev of EFetch url h body \<Rightarrow> [(url, body)] | _ \<Rightarrow> []) t)"

definition creates :: "event list \<Rightarrow> jsval list" where
  "creates t = concat (map (\<lambda>ev. case ev of ECreate opts \<Rightarrow> [opts] | _ \<Rightarrow> []) t)"

definition gets :: "event list \<Rightarrow> nat list" where
  "gets t = concat (map (\<lambda>ev. case ev of EGet opts med sig \<Rightarrow> [sig] | _ \<Rightarrow> []) t)"

section \<open>Sign-ins that overlap\<close>

text \<open>
  JavaScript runs one piece of code at a time, and a call of \<open>signin\<close> gives up control
  at each \<open>await\<close>. Between its start and its end another call on the same client can
  therefore run. A call is followed through its \<open>await\<close> points:
  \<^item> started: \<open>assertBrowserSupported\<close> and \<open>handleAbort\<close> have run and the request to
    \<open>/signin/begin\<close> is under way (\<open>AwaitBegin\<close>);
  \<^item> the response has arrived; if it leads to retrieval, \<open>navigator.credentials.get\<close> is
    called with \<open>this.abortController.signal\<close> as it is at that moment (\<open>AwaitGet\<close>
    with the controller of that signal);
  \<^item> the retrieval has settled and the call runs to its end (\<open>Finished\<close>; the request
    to \<open>/signin/complete\<close> touches no state of the client).
\<close>

datatype phase = AwaitBegin | AwaitGet nat | Finished

record page =
  the_client :: client
  calls :: "phase list"

datatype action =
    Start                  \<comment> \<open>a new call of \<open>signin\<close>\<close>
  | BeginReturns nat bool  \<comment> \<open>this call's begin response arrives; does it lead to retrieval?\<close>
  | RetrievalSettles nat   \<comment> \<open>this call's \<open>navigator.credentials.get\<close> resolves or rejects\<close>
  | CallAbort              \<comment> \<open>the public \<open>abort()\<close>\<close>

fun act :: "env \<Rightarrow> page \<Rightarrow> action \<Rightarrow> page" where
  "act e s Start =
     (case andThen (assertBrowserSupported e) (\<lambda>_. handleAbort) (the_client s) of
        (Inl x, c, t) \<Rightarrow> s\<lparr>the_client := c, calls := calls s @ [Finished]\<rparr>
      | (Inr u, c, t) \<Rightarrow> s\<lparr>the_client := c, calls := calls s @ [AwaitBegin]\<rparr>)"
| "act e s (BeginReturns i proceeds) =
     (if i < length (calls s) \<and> calls s ! i = AwaitBegin
      then s\<lparr>calls := (calls s)[i := if proceeds then AwaitGet (abortController (the_client s))
                                       else Finished]\<rparr>
      else s)"
| "act e s (RetrievalSettles i) =
     (if i < length (calls s) \<and> (case calls s ! i of AwaitGet sig \<Rightarrow> True | _ \<Rightarrow> False)
      then s\<lparr>calls := (calls s)[i := Finished]\<rparr>
      else s)"
| "act e s CallAbort = s\<lparr>the_client := fst (snd (abort (the_client s)))\<rparr>"

definition run_actions :: "env \<Rightarrow> client_config \<Rightarrow> action list \<Rightarrow> page" where
  "run_actions e cfg as = foldl (act e) \<lparr>the_client = new_client cfg, calls = []\<rparr> as"

text \<open>The calls whose retrieval is pending with a signal that has not fired.\<close>

definition live_retrievals :: "page \<Rightarrow> nat list" where
  "live_retrievals s =
     filter (\<lambda>i. case calls s ! i of
                    AwaitGet sig \<Rightarrow> sig \<notin> aborted (the_client s)
                  | _ \<Rightarrow> False)
       [0..<length (calls s)]"

text \<open>
  What holds of every page that \<open>run_actions\<close> reaches: the controllers made so far are
  those below \<open>next_controller\<close>; the current one is among them; every one of them but the
  current one has been aborted; a pending retrieval holds the signal of one of them.
\<close>

definition page_inv :: "page \<Rightarrow> bool" where
  "page_inv s \<longleftrightarrow>
     abortController (the_client s) < next_controller (the_client s) \<and>
     (\<forall>n \<in> aborted (the_client s). n < next_controller (the_client s)) \<and>
     (\<forall>n < next_controller (the_client s).
        n = abortController (the_client s) \<or> n \<in> aborted (the_client s)) \<and>
     (\<forall>sig. AwaitGet sig \<in> set (calls s) \<longrightarrow> sig < next_controller (the_client s))"

section \<open>Auxiliary notions for the ceremony proofs\<close>

text \<open>What a request function returns for an outcome of \<open>fetch\<close>.\<close>

definition post_result :: "fetch_outcome \<Rightarrow> caught + jsval" where
  "post_result out =
     (case out of
        FetchRejected x \<Rightarrow> Inl x
      | FetchResponse ok j \<Rightarrow>
          (case j of Inl x \<Rightarrow> Inl x | Inr res \<Rightarrow> Inr (if ok then res else server_error res)))"

text \<open>The rest of \<open>register\<close> after \<open>navigator.credentials.create\<close> has resolved.\<close>

definition after_create :: "env \<Rightarrow> jsval \<Rightarrow> string \<Rightarrow> credential option \<Rightarrow> jsval comp" where
  "after_create e registration nick credential =
     (case credential of
        None \<Rightarrow> ret (client_error ''failed_create_credential'' failed_create_title)
      | Some cr \<Rightarrow>
          andThen (lift (get_prop registration ''session'')) (\<lambda>session.
            registerComplete e cr session nick))"

text \<open>What the \<open>catch\<close> block of the ceremonies completes with for a caught value.\<close>

definition caught_result :: "env \<Rightarrow> caught \<Rightarrow> caught + jsval" where
  "caught_result e x =
     (case getErrorMessage e x of Inl y \<Rightarrow> Inl y | Inr m \<Rightarrow> Inr (client_error ''unknown'' m))"

text \<open>A \<open>try\<close> block followed by the \<open>catch\<close> block of the ceremonies.\<close>

definition settle :: "env \<Rightarrow> (caught + jsval) \<times> client \<times> event list \<Rightarrow> (caught + jsval) \<times> client \<times> event list" where
  "settle e run =
     (case run of
        (Inl x, c, t) \<Rightarrow> (caught_result e x, c, t)
      | (Inr v, c, t) \<Rightarrow> (Inr v, c, t))"

text \<open>The rest of \<open>signin\<close> after \<open>navigator.credentials.get\<close> has resolved.\<close>

definition after_get :: "env \<Rightarrow> jsval \<Rightarrow> credential option \<Rightarrow> jsval comp" where
  "after_get e resp credential =
     andThen (lift (get_prop resp ''session'')) (\<lambda>session.
       signinComplete e credential session)"

text \<open>The client after \<open>handleAbort\<close>.\<close>

definition renewed :: "client \<Rightarrow> client" where
  "renewed c = c\<lparr>aborted := insert (abortController c) (aborted c),
                 abortController := next_controller c,
                 next_controller := Suc (next_controller c)\<rparr>"

text \<open>The selector after \<open>if (!signinMethod) signinMethod = { discoverable: true }\<close>.\<close>

definition selected :: "signin_method option \<Rightarrow> signin_method" where
  "selected sel = (case sel of None \<Rightarrow> Discoverable | Some m \<Rightarrow> m)"

text \<open>The \<open>mediation\<close> argument of \<open>navigator.credentials.get\<close>.\<close>

definition mediation_of :: "signin_method \<Rightarrow> string option" where
  "mediation_of m = (case m of Autofill \<Rightarrow> Some ''conditional'' | _ \<Rightarrow> None)"

text \<open>The bodies of the requests to \<open>/signin/begin\<close> in a trace.\<close>

definition begin_requests :: "client_config \<Rightarrow> event list \<Rightarrow> jsval list" where
  "begin_requests cfg t =
     map snd (filter (\<lambda>(url, body). url = apiUrl cfg @ ''/signin/begin'') (fetches t))"

subsection \<open>A concrete browser, backend and authenticator\<close>

text \<open>
  The text conversions of the concrete browser: \<open>JSON.stringify\<close> and \<open>String\<close>
  on the values of this model (numbers are integers, strings are Latin-1).
\<close>

fun join :: "string \<Rightarrow> string list \<Rightarrow> string" where
  "join sep [] = []"
| "join sep [s] = s"
| "join sep (s # ss) = s @ sep @ join sep ss"

definition hex_digit :: "nat \<Rightarrow> char" where
  "hex_digit n = ''0123456789abcdef'' ! n"

definition json_escape :: "char \<Rightarrow> string" where
  "json_escape ch =
     (if ch = CHR 0x22 then [CHR 0x5C, CHR 0x22]
      else if ch = CHR 0x5C then [CHR 0x5C, CHR 0x5C]
      else if ch = CHR 0x08 then [CHR 0x5C, CHR ''b'']
      else if ch = CHR 0x09 then [CHR 0x5C, CHR ''t'']
      else if ch = CHR 0x0A then [CHR 0x5C, CHR ''n'']
      else if ch = CHR 0x0C then [CHR 0x5C, CHR ''f'']
      else if ch = CHR 0x0D then [CHR 0x5C, CHR ''r'']
      else if (of_char ch :: nat) < 32
        then [CHR 0x5C, CHR ''u'', CHR ''0'', CHR ''0'',
              hex_digit (of_char ch div 16), hex_digit (of_char ch mod 16)]
      else [ch])"

definition json_quote :: "string \<Rightarrow> string" where
  "json_quote s = CHR 0x22 # concat (map json_escape s) @ [CHR 0x22]"

fun sample_json_text :: "jsval \<Rightarrow> string" where
  "sample_json_text JUndefined = ''null''"
| "sample_json_text JNull = ''null''"
| "sample_json_text (JBool b) = (if b then ''true'' else ''false'')"
| "sample_json_text (JNum n) = int_text n"
| "sample_json_text (JStr s) = json_quote s"
| "sample_json_text (JBytes bs) =
     ''{'' @ join '','' (map (\<lambda>(i, b). json_quote (decimal i) @ '':'' @ decimal (unat b))
                          (zip [0..<length bs] bs)) @ ''}''"
| "sample_json_text (JArr vs) = ''['' @ join '','' (map sample_json_text vs) @ '']''"
| "sample_json_text (JObj fs) =
     ''{'' @ join '','' (map (\<lambda>(k, v). json_quote k @ '':'' @ sample_json_text v)
                          (filter (\<lambda>(k, v). v \<noteq> JUndefined) fs)) @ ''}''"

fun sample_js_text :: "jsval \<Rightarrow> string" where
  "sample_js_text JUndefined = ''undefined''"
| "sample_js_text JNull = ''null''"
| "sample_js_text (JBool b) = (if b then ''true'' else ''false'')"
| "sample_js_text (JNum n) = int_text n"
| "sample_js_text (JStr s) = s"
| "sample_js_text (JBytes bs) = join '','' (map (\<lambda>b. decimal (unat b)) bs)"
| "sample_js_text (JArr vs) =
     join '','' (map (\<lambda>v. if v = JUndefined \<or> v = JNull then [] else sample_js_text v) vs)"
| "sample_js_text (JObj fs) = ''[object Object]''"

definition sample_fault_message :: "fault \<Rightarrow> string" where
  "sample_fault_message f =
     (case f of
        NullAccess name \<Rightarrow> ''Cannot read properties of null (reading '' @ name @ '')''
      | NotCallable name \<Rightarrow> name @ '' is not a function''
      | AtobFailure \<Rightarrow> ''The string to be decoded is not correctly encoded.''
      | ToNumberFailure \<Rightarrow> ''Cannot convert a BigInt value to a number''
      | ToStringFailure \<Rightarrow> ''Cannot convert object to primitive value'')"

definition sample_string_text :: "caught \<Rightarrow> string" where
  \<comment> \<open>\<open>String(v)\<close> where it returns\<close>
  "sample_string_text x =
     (case x of
        Plain v \<Rightarrow> sample_js_text v
      | FunctionOrSymbol \<Rightarrow> ''function () {}''
      | Cyclic convertible fs \<Rightarrow> ''[object Object]''
      | ErrorObject name m \<Rightarrow> name @ '': '' @ m
      | PlatformFault f \<Rightarrow> ''Error: '' @ sample_fault_message f)"

text \<open>
  The number of a string: surrounding white space is dropped; the empty string is 0; then
  \<open>Infinity\<close> with a sign, an integer with the prefix \<open>0x\<close>, \<open>0o\<close> or \<open>0b\<close>, or a
  decimal literal with optional sign, fraction and exponent; not-a-number otherwise. The
  result is the value of the literal, without the rounding to a double that long literals
  get.
\<close>

definition js_whitespace :: "char \<Rightarrow> bool" where
  "js_whitespace c \<longleftrightarrow>
     c \<in> {CHR 0x09, CHR 0x0A, CHR 0x0B, CHR 0x0C, CHR 0x0D, CHR 0x20, CHR 0xA0}"

definition is_digit :: "char \<Rightarrow> bool" where
  "is_digit c \<longleftrightarrow> 48 \<le> (of_char c :: nat) \<and> (of_char c :: nat) \<le> 57"

definition digits_nat :: "string \<Rightarrow> nat" where
  "digits_nat s = foldl (\<lambda>a c. 10 * a + (of_char c - 48)) 0 s"

definition radix_digit :: "char \<Rightarrow> nat option" where
  "radix_digit c =
     (let n = (of_char c :: nat) in
      if 48 \<le> n \<and> n \<le> 57 then Some (n - 48)
      else if 97 \<le> n \<and> n \<le> 102 then Some (n - 87)
      else if 65 \<le> n \<and> n \<le> 70 then Some (n - 55)
      else None)"

fun radix_nat :: "nat \<Rightarrow> nat \<Rightarrow> string \<Rightarrow> nat option" where
  "radix_nat base acc [] = Some acc"
| "radix_nat base acc (c # cs) =
     (case radix_digit c of
        None \<Rightarrow> None
      | Some d \<Rightarrow> if d < base then radix_nat base (base * acc + d) cs else None)"

definition exponent_of :: "string \<Rightarrow> int option" where
  "exponent_of s =
     (case s of
        [] \<Rightarrow> Some 0
      | c # r \<Rightarrow>
          if c = CHR ''e'' \<or> c = CHR ''E'' then
            (let neg = (r \<noteq> [] \<and> hd r = CHR ''-'');
                 ds = (if r \<noteq> [] \<and> (hd r = CHR ''-'' \<or> hd r = CHR ''+'') then tl r else r)
             in if ds \<noteq> [] \<and> list_all is_digit ds
                then Some (if neg then - int (digits_nat ds) else int (digits_nat ds))
                else None)
          else None)"

definition unsigned_decimal :: "string \<Rightarrow> rat option" where
  "unsigned_decimal s =
     (let ip = takeWhile is_digit s;
          r1 = dropWhile is_digit s;
          dot = (r1 \<noteq> [] \<and> hd r1 = CHR ''.'');
          fp = (if dot then takeWhile is_digit (tl r1) else []);
          r2 = (if dot then dropWhile is_digit (tl r1) else r1)
      in if ip = [] \<and> fp = [] then None
         else (case exponent_of r2 of
                 None \<Rightarrow> None
               | Some ex \<Rightarrow>
                   (let m = of_nat (digits_nat ip) + of_nat (digits_nat fp) / 10 ^ length fp
                    in Some (if 0 \<le> ex then m * 10 ^ nat ex else m / 10 ^ nat (- ex)))))"

definition sample_string_to_number :: "string \<Rightarrow> js_num" where
  "sample_string_to_number s =
     (let t = rev (dropWhile js_whitespace (rev (dropWhile js_whitespace s)));
          radix = (\<lambda>base ds. if ds = [] then NaN
                     else (case radix_nat base 0 ds of None \<Rightarrow> NaN | Some n \<Rightarrow> Finite (of_nat n)));
          dec = (\<lambda>neg u. case unsigned_decimal u of
                     None \<Rightarrow> NaN | Some q \<Rightarrow> Finite (if neg then - q else q))
      in if t = [] then Finite 0
         else if t = ''Infinity'' \<or> t = ''+Infinity'' then PosInfinity
         else if t = ''-Infinity'' then NegInfinity
         else if take 2 t = ''0x'' \<or> take 2 t = ''0X'' then radix 16 (drop 2 t)
         else if take 2 t = ''0o'' \<or> take 2 t = ''0O'' then radix 8 (drop 2 t)
         else if take 2 t = ''0b'' \<or> take 2 t = ''0B'' then radix 2 (drop 2 t)
         else if hd t = CHR ''-'' then dec True (tl t)
         else if hd t = CHR ''+'' then dec False (tl t)
         else dec False t)"

definition sample_config :: client_config where
  "sample_config =
     \<lparr>apiUrl = ''https://v4.passwordless.dev'', apiKey = ''key'',
      origin = ''https://example.org'', rpid = ''example.org''\<rparr>"

definition sample_credential :: credential where
  "sample_credential =
     \<lparr>cred_id = ''AQID'', rawId = [1, 2, 3], cred_type = ''public-key'', extensions = JObj [],
      response = [(''attestationObject'', [4, 5]), (''clientDataJSON'', [6]),
                  (''authenticatorData'', [7]), (''signature'', [8, 9])]\<rparr>"

definition sample_options :: jsval where
  "sample_options =
     JObj [(''data'', JObj [(''challenge'', JStr ''QUJD''),
                            (''user'', JObj [(''id'', JStr ''dXNlcg'')]),
                            (''excludeCredentials'', JArr [JObj [(''id'', JStr ''QQ'')]]),
                            (''allowCredentials'', JArr [JObj [(''id'', JStr ''QQ'')]])]),
           (''session'', JStr ''s1'')]"

text \<open>
  The backend answers a begin request with \<open>sample_options\<close> (or, when \<open>ok\<close> is
  false, with status 400 and the body \<open>{errorCode: "invalid_token"}\<close>) and a complete
  request with a token; the authenticator resolves to \<open>cr\<close>.
\<close>

definition sample_env :: "pkc \<Rightarrow> bool \<Rightarrow> credential option \<Rightarrow> env" where
  "sample_env p ok cr =
     \<lparr>publicKeyCredential = p,
      fetch = (\<lambda>url body.
        if url = ''https://v4.passwordless.dev/register/begin'' \<or>
           url = ''https://v4.passwordless.dev/signin/begin''
        then FetchResponse ok
               (Inr (if ok then sample_options else JObj [(''errorCode'', JStr ''invalid_token'')]))
        else FetchResponse True (Inr (JObj [(''data'', JObj [(''token'', JStr ''verify123'')])]))),
      credentials_create = (\<lambda>publicKey. CredResolved cr),
      credentials_get = (\<lambda>publicKey mediation signal. CredResolved cr),
      fault_message = sample_fault_message,
      json_text = sample_json_text,
      string_text = sample_string_text,
      string_to_number = sample_string_to_number\<rparr>"



section \<open>Properties of the codec\<close>

lemma b64_alphabet_length: "length b64_alphabet = 64"
  by (simp add: b64_alphabet_def)

lemma b64_alphabet_distinct: "distinct b64_alphabet"
  by (simp add: b64_alphabet_def)

lemma b64val_b64char: "n < 64 \<Longrightarrow> b64val (b64char n) = Some n"
  using map_of_zip_nth [of b64_alphabet "[0..<64]" n]
  by (simp add: b64val_def b64char_def b64_alphabet_length b64_alphabet_distinct)

lemma b64val_Some: "b64val c = Some n \<Longrightarrow> n < 64 \<and> b64char n = c"
proof -
  assume "b64val c = Some n"
  then have "(c, n) \<in> set (zip b64_alphabet [0..<64])"
    unfolding b64val_def by (rule map_of_SomeD)
  then obtain i where "b64_alphabet ! i = c" "[0..<64] ! i = n" "i < 64"
    by (auto simp: in_set_zip b64_alphabet_length)
  then show ?thesis by (simp add: b64char_def)
qed

lemma b64char_in_alphabet: "n < 64 \<Longrightarrow> b64char n \<in> set b64_alphabet"
  by (simp add: b64char_def b64_alphabet_length)

lemma b64char_plain:
  assumes "n < 64"
  shows "b64char n \<noteq> CHR ''=''" "b64char n \<noteq> CHR ''-''" "b64char n \<noteq> CHR ''_''"
    "\<not> ascii_whitespace (b64char n)"
proof -
  have a: "b64char n \<in> set b64_alphabet" using assms by (rule b64char_in_alphabet)
  have b: "CHR ''='' \<notin> set b64_alphabet" "CHR ''-'' \<notin> set b64_alphabet"
    "CHR ''_'' \<notin> set b64_alphabet" "\<forall>c \<in> set b64_alphabet. \<not> ascii_whitespace c"
    by (simp_all add: b64_alphabet_def ascii_whitespace_def)
  show "b64char n \<noteq> CHR ''=''" "b64char n \<noteq> CHR ''-''" "b64char n \<noteq> CHR ''_''"
    "\<not> ascii_whitespace (b64char n)"
    using a b by auto
qed

lemma byte1: "b < 256 \<Longrightarrow> a div 4 * 4 + ((a mod 4) * 16 + b div 16) div 16 = (a::nat)"
proof -
  assume "b < 256"
  then have "b div 16 < 16" by simp
  then have "((a mod 4) * 16 + b div 16) div 16 = a mod 4" by simp
  then show ?thesis by simp
qed

lemma byte2: "b < 256 \<Longrightarrow> c < 256 \<Longrightarrow>
  (((a mod 4) * 16 + b div 16) mod 16) * 16 + ((b mod 16) * 4 + c div 64) div 4 = (b::nat)"
proof -
  assume "b < 256" "c < 256"
  then have "b div 16 < 16" "c div 64 < 4" by simp_all
  then have "((a mod 4) * 16 + b div 16) mod 16 = b div 16"
    "((b mod 16) * 4 + c div 64) div 4 = b mod 16" by simp_all
  then show ?thesis by simp
qed

lemma byte3: "c < 256 \<Longrightarrow> (((b mod 16) * 4 + c div 64) mod 4) * 64 + c mod 64 = (c::nat)"
proof -
  assume "c < 256"
  then have "c div 64 < 4" by simp
  then have "((b mod 16) * 4 + c div 64) mod 4 = c div 64" by simp
  then show ?thesis by simp
qed

lemma byte2_last: "b < 256 \<Longrightarrow>
  (((a mod 4) * 16 + b div 16) mod 16) * 16 + ((b mod 16) * 4) div 4 = (b::nat)"
  using byte2 [of b 0 a] by simp

lemma rep2: "replicate 2 c = [c, c]" by (simp add: numeral_2_eq_2)

lemma b64_encode_sextets:
  "b64_encode bs = map b64char (b64_sextets bs) @ replicate (pad_count (length bs)) CHR ''=''"
  by (induction bs rule: b64_encode.induct) (simp_all add: pad_count_def rep2)

lemma b64_sextets_bound: "\<forall>a \<in> set bs. a < 256 \<Longrightarrow> \<forall>v \<in> set (b64_sextets bs). v < 64"
proof (induction bs rule: b64_sextets.induct)
  case (4 a b c rest)
  have "a < 256" "b < 256" "c < 256" using 4(2) by auto
  then have "a div 4 < 64" "b div 16 < 16" "c div 64 < 4" by simp_all
  moreover have "a mod 4 < 4" "b mod 16 < 16" by simp_all
  ultimately have "a div 4 < 64" "(a mod 4) * 16 + b div 16 < 64" "(b mod 16) * 4 + c div 64 < 64"
    by linarith+
  then show ?case using 4 by simp
next
  case (3 a b)
  then have "a < 256" "b < 256" by auto
  then have "a div 4 < 64" "b div 16 < 16" by simp_all
  moreover have "a mod 4 < 4" "b mod 16 < 16" by simp_all
  ultimately have "a div 4 < 64" "(a mod 4) * 16 + b div 16 < 64" "(b mod 16) * 4 < 64"
    by linarith+
  then show ?case by simp
next
  case (2 a)
  then have "a < 256" by auto
  then have "a div 4 < 64" by simp
  moreover have "a mod 4 < 4" by simp
  then have "(a mod 4) * 16 < 64" by linarith
  ultimately show ?case by simp
qed simp

lemma b64_sextets_length:
  "length (b64_sextets bs) mod 4 \<noteq> 1"
  by (induction bs rule: b64_sextets.induct) (simp_all)

lemma b64_decode_sextets: "\<forall>a \<in> set bs. a < 256 \<Longrightarrow> b64_decode (b64_sextets bs) = bs"
proof (induction bs rule: b64_sextets.induct)
  case (4 a b c rest)
  have "a < 256" "b < 256" "c < 256" "\<forall>a \<in> set rest. a < 256" using 4(2) by auto
  then have "b64_decode (b64_sextets rest) = rest"
    "a div 4 * 4 + ((a mod 4) * 16 + b div 16) div 16 = a"
    "(((a mod 4) * 16 + b div 16) mod 16) * 16 + ((b mod 16) * 4 + c div 64) div 4 = b"
    "(((b mod 16) * 4 + c div 64) mod 4) * 64 + c mod 64 = c"
    using 4(1) by (simp_all only: byte1 byte2 byte3)
  then show ?case
    by (simp only: b64_sextets.simps b64_decode.simps append_Cons append_Nil)
next
  case (3 a b)
  then have "a < 256" "b < 256" by auto
  then have "a div 4 * 4 + ((a mod 4) * 16 + b div 16) div 16 = a"
    "(((a mod 4) * 16 + b div 16) mod 16) * 16 + ((b mod 16) * 4) div 4 = b"
    by (simp_all only: byte1 byte2_last)
  then show ?case
    by (simp only: b64_sextets.simps b64_decode.simps)
next
  case (2 a)
  then show ?case by simp
qed simp

lemma sextets_map_b64char: "\<forall>v \<in> set vs. v < 64 \<Longrightarrow> sextets (map b64char vs) = Some vs"
  by (induction vs) (simp_all add: b64val_b64char)

lemma base64ToBase64Url_map:
  "base64ToBase64Url s = strip_trailing_eq (map url_char s)"
proof -
  have "map url_char s = replace_char CHR ''/'' CHR ''_'' (replace_char CHR ''+'' CHR ''-'' s)"
    by (simp add: replace_char_def url_char_def Let_def)
  then show ?thesis by (simp add: base64ToBase64Url_def)
qed

lemma base64UrlToBase64_map: "base64UrlToBase64 s = map std_char s"
  by (simp add: base64UrlToBase64_def replace_char_def std_char_def Let_def)

lemma std_url_b64char: "n < 64 \<Longrightarrow> std_char (url_char (b64char n)) = b64char n"
  using b64char_plain(2,3) [of n] by (auto simp: std_char_def url_char_def Let_def)

lemma url_char_b64char_noeq: "n < 64 \<Longrightarrow> url_char (b64char n) \<noteq> CHR ''=''"
  using b64char_plain(1) [of n] by (auto simp: url_char_def Let_def)

lemma strip_trailing_eq_pad:
  "CHR ''='' \<notin> set xs \<Longrightarrow> strip_trailing_eq (xs @ replicate k CHR ''='') = xs"
proof -
  assume a: "CHR ''='' \<notin> set xs"
  have "dropWhile (\<lambda>c. c = CHR ''='') (replicate k CHR ''='' @ rev xs) = 
        dropWhile (\<lambda>c. c = CHR ''='') (rev xs)"
    by (rule dropWhile_append2) simp
  also have "\<dots> = rev xs"
    using a by (cases "rev xs") (auto simp: rev_eq_Cons_iff)
  finally show ?thesis by (simp add: strip_trailing_eq_def)
qed

lemma strip_padding2_pad:
  assumes "CHR ''='' \<notin> set xs" "k \<le> 2"
  shows "strip_padding2 (xs @ replicate k CHR ''='') = xs"
proof -
  consider "k = 0" | "k = 1" | "k = 2" using assms(2) by linarith
  then show ?thesis
  proof cases
    case 1
    show ?thesis
    proof (cases "rev xs")
      case Nil then show ?thesis using 1 by (simp add: strip_padding2_def)
    next
      case (Cons e1 r)
      then have "e1 \<in> set xs" by (metis list.set_intros(1) set_rev)
      then have "e1 \<noteq> CHR ''=''" using assms(1) by auto
      then show ?thesis using 1 Cons by (cases r) (simp_all add: strip_padding2_def)
    qed
  next
    case 2
    show ?thesis
    proof (cases "rev xs")
      case Nil then show ?thesis using 2 by (simp add: strip_padding2_def)
    next
      case (Cons e2 r)
      then have "e2 \<in> set xs" by (metis list.set_intros(1) set_rev)
      then have "e2 \<noteq> CHR ''=''" using assms(1) by auto
      moreover have "xs = rev (e2 # r)" using Cons by (metis rev_rev_ident)
      ultimately show ?thesis using 2 Cons by (simp add: strip_padding2_def)
    qed
  next
    case 3
    then show ?thesis by (simp add: strip_padding2_def rep2)
  qed
qed

lemma word_of_nat_mod256: "(word_of_nat (n mod 256) :: byte) = word_of_nat n"
  by (simp add: word_unat_eq_iff unat_of_nat)

lemma unat_byte_less: "unat (b :: byte) < 256"
  using unsigned_less [of b, where ?'a = nat] by simp

lemma unat_byte_bound: "\<forall>a \<in> set (map unat (bs :: byte list)). a < 256"
proof -
  show ?thesis by (simp add: unat_byte_less)
qed

lemma btoa_bytes: "btoa (map (\<lambda>b. char_of (unat b)) (bs :: byte list)) = b64_encode (map unat bs)"
proof -
  have "of_char (char_of (unat b)) = unat b" for b :: byte
    using unat_byte_less [of b] by (simp add: of_char_of)
  then show ?thesis by (simp add: btoa_def comp_def)
qed

lemma encode_bytes_sextets:
  "encode_bytes bs = map (\<lambda>v. url_char (b64char v)) (b64_sextets (map unat bs))"
proof -
  let ?vs = "b64_sextets (map unat bs)"
  have b: "\<forall>v \<in> set ?vs. v < 64"
    by (rule b64_sextets_bound) (rule unat_byte_bound)
  have e: "url_char CHR ''='' = CHR ''=''" by (simp add: url_char_def)
  have n: "CHR ''='' \<notin> set (map (\<lambda>v. url_char (b64char v)) ?vs)"
    using b url_char_b64char_noeq by (auto simp del: not_None_eq) metis
  have "encode_bytes bs = strip_trailing_eq (map url_char (b64_encode (map unat bs)))"
    by (simp add: encode_bytes_def btoa_bytes base64ToBase64Url_map)
  also have "\<dots> = strip_trailing_eq (map (\<lambda>v. url_char (b64char v)) ?vs
      @ replicate (pad_count (length (map unat bs))) CHR ''='')"
    by (simp add: b64_encode_sextets e comp_def)
  also have "\<dots> = map (\<lambda>v. url_char (b64char v)) ?vs"
    using n by (rule strip_trailing_eq_pad)
  finally show ?thesis .
qed

lemma pad_amount:
  assumes "(n::nat) mod 4 \<noteq> 1"
  shows "(4 - n mod 4) mod 4 \<le> 2" "(n + (4 - n mod 4) mod 4) mod 4 = 0"
proof -
  have "n mod 4 < 4" by simp
  then consider "n mod 4 = 0" | "n mod 4 = 2" | "n mod 4 = 3" using assms by linarith
  note c = this
  from c show "(4 - n mod 4) mod 4 \<le> 2"
    by cases simp_all
  have "(n + (4 - n mod 4) mod 4) mod 4 = (n mod 4 + (4 - n mod 4) mod 4) mod 4"
    by (simp add: mod_add_left_eq)
  also have "\<dots> = 0"
    using c by cases simp_all
  finally show "(n + (4 - n mod 4) mod 4) mod 4 = 0" .
qed

lemma filter_ws_plain:
  assumes "\<forall>v \<in> set vs. v < 64"
  shows "filter (\<lambda>c. \<not> ascii_whitespace c) (map b64char vs @ replicate k CHR ''='') =
         map b64char vs @ replicate k CHR ''=''"
proof -
  have "\<not> ascii_whitespace CHR ''=''" by (simp add: ascii_whitespace_def)
  moreover have "\<forall>c \<in> set (map b64char vs). \<not> ascii_whitespace c"
    using assms b64char_plain(4) by simp
  ultimately show ?thesis by (simp add: filter_id_conv)
qed

lemma atob_padded:
  assumes b: "\<forall>v \<in> set vs. v < 64" and l: "length vs mod 4 \<noteq> 1"
  shows "atob (map b64char vs @ replicate ((4 - length vs mod 4) mod 4) CHR ''='')
         = Inr (map char_of (b64_decode vs))"
proof -
  let ?s = "map b64char vs"
  let ?k = "(4 - length vs mod 4) mod 4"
  let ?d = "?s @ replicate ?k CHR ''=''"
  have k2: "?k \<le> 2" using l by (rule pad_amount(1))
  have len: "length ?d mod 4 = 0" using pad_amount(2) [OF l] by simp
  have ne: "CHR ''='' \<notin> set ?s"
  proof
    assume "CHR ''='' \<in> set ?s"
    then obtain v where "v \<in> set vs" "b64char v = CHR ''=''" by auto
    then show False using b b64char_plain(1) by blast
  qed
  have ws: "filter (\<lambda>c. \<not> ascii_whitespace c) ?d = ?d"
    using b by (rule filter_ws_plain)
  have sp: "strip_padding2 ?d = ?s" using ne k2 by (rule strip_padding2_pad)
  have sx: "sextets ?s = Some vs" using b by (rule sextets_map_b64char)
  have l': "length ?s mod 4 \<noteq> 1" using l by simp
  show ?thesis
    unfolding atob_def ws Let_def
    by (simp only: len sp sx l' if_True if_False option.case refl)
qed

lemma decode_text_sextets:
  assumes b: "\<forall>v \<in> set vs. v < 64" and l: "length vs mod 4 \<noteq> 1"
  shows "decode_text (map (\<lambda>v. url_char (b64char v)) vs) = Inr (map word_of_nat (b64_decode vs))"
proof -
  have s: "base64UrlToBase64 (map (\<lambda>v. url_char (b64char v)) vs) = map b64char vs"
    using b by (simp add: base64UrlToBase64_map std_url_b64char)
  have p: "padEnd (map b64char vs) (length (map b64char vs) + (4 - length (map b64char vs) mod 4) mod 4)
           = map b64char vs @ replicate ((4 - length vs mod 4) mod 4) CHR ''=''"
    by (simp add: padEnd_def)
  show ?thesis
    unfolding decode_text_def s Let_def p atob_padded [OF b l]
    by (simp add: comp_def word_of_nat_mod256)
qed

lemma decode_encode_bytes: "decode_text (encode_bytes bs) = Inr bs"
proof -
  let ?vs = "b64_sextets (map unat bs)"
  have b: "\<forall>v \<in> set ?vs. v < 64"
    by (rule b64_sextets_bound) (rule unat_byte_bound)
  have l: "length ?vs mod 4 \<noteq> 1" by (rule b64_sextets_length)
  have "decode_text (encode_bytes bs) = Inr (map word_of_nat (b64_decode ?vs))"
    unfolding encode_bytes_sextets using b l by (rule decode_text_sextets)
  also have "b64_decode ?vs = map unat bs"
    by (rule b64_decode_sextets) (rule unat_byte_bound)
  finally show ?thesis by (simp add: comp_def)
qed

lemma url_alphabet_map: "url_alphabet = map url_char b64_alphabet"
  by (simp add: url_alphabet_def b64_alphabet_def url_char_def)

lemma url_alphabet_nth: "v < 64 \<Longrightarrow> url_alphabet ! v = url_char (b64char v)"
  by (simp add: url_alphabet_map b64char_def b64_alphabet_length)

lemma url_alphabet_distinct: "distinct url_alphabet"
  by (simp add: url_alphabet_def)

lemma url_alphabet_length: "length url_alphabet = 64"
  by (simp add: url_alphabet_def)

lemma in_url_alphabet: "c \<in> set url_alphabet \<Longrightarrow> \<exists>v < 64. c = url_char (b64char v)"
proof -
  assume "c \<in> set url_alphabet"
  then obtain i where "i < length url_alphabet" "url_alphabet ! i = c"
    by (auto simp: in_set_conv_nth)
  then show ?thesis using url_alphabet_nth [of i] by (auto simp: url_alphabet_length)
qed

lemma url_text_sextets:
  "set t \<subseteq> set url_alphabet \<Longrightarrow>
   \<exists>vs. t = map (\<lambda>v. url_char (b64char v)) vs \<and> (\<forall>v \<in> set vs. v < 64)"
proof (induction t)
  case Nil
  then show ?case by simp
next
  case (Cons c t)
  then obtain vs where vs: "t = map (\<lambda>v. url_char (b64char v)) vs" "\<forall>v \<in> set vs. v < 64"
    by auto
  from Cons.prems obtain v where v: "v < 64" "c = url_char (b64char v)"
    using in_url_alphabet [of c] by auto
  show ?case
    by (rule exI [of _ "v # vs"]) (use vs v in simp)
qed

lemma canonical_sextets_iff:
  "canonical_sextets vs \<longleftrightarrow>
     length vs mod 4 \<noteq> 1 \<and> (length vs mod 4 = 2 \<longrightarrow> last vs mod 16 = 0) \<and>
     (length vs mod 4 = 3 \<longrightarrow> last vs mod 4 = 0)"
proof (induction vs rule: canonical_sextets.induct)
  case (1 p q r s rest)
  have len: "length (p # q # r # s # rest) mod 4 = length rest mod 4"
    by simp
  show ?case
  proof (cases "rest = []")
    case True
    then show ?thesis by simp
  next
    case False
    then have "last (p # q # r # s # rest) = last rest" by simp
    then show ?thesis using 1 len by (simp only: canonical_sextets.simps)
  qed
qed simp_all

lemma sextets_decode_canonical:
  "\<forall>v \<in> set vs. v < 64 \<Longrightarrow> canonical_sextets vs \<Longrightarrow> b64_sextets (b64_decode vs) = vs"
proof (induction vs rule: canonical_sextets.induct)
  case (1 p q r s rest)
  then have "p < 64" "q < 64" "r < 64" "s < 64" by auto
  then have "q div 16 < 4" "r div 4 < 16" by simp_all
  then have e: "(p * 4 + q div 16) div 4 = p" "(p * 4 + q div 16) mod 4 = q div 16"
    "((q mod 16) * 16 + r div 4) div 16 = q mod 16" "((q mod 16) * 16 + r div 4) mod 16 = r div 4"
    "((r mod 4) * 64 + s) div 64 = r mod 4" "((r mod 4) * 64 + s) mod 64 = s"
    using \<open>s < 64\<close> by simp_all
  have j: "q div 16 * 16 + q mod 16 = q" "r div 4 * 4 + r mod 4 = r" by simp_all
  have "b64_sextets (b64_decode rest) = rest" using 1 by simp
  then show ?case
    by (simp only: b64_decode.simps b64_sextets.simps append_Cons append_Nil e j)
next
  case (2 p q r)
  then have "q < 64" "r < 64" "r mod 4 = 0" by auto
  then have "q div 16 < 4" "r div 4 < 16" by simp_all
  then have e: "(p * 4 + q div 16) div 4 = p" "(p * 4 + q div 16) mod 4 = q div 16"
    "((q mod 16) * 16 + r div 4) div 16 = q mod 16" "((q mod 16) * 16 + r div 4) mod 16 = r div 4"
    by simp_all
  have j: "q div 16 * 16 + q mod 16 = q" by simp
  have "r div 4 * 4 = r" using \<open>r mod 4 = 0\<close> by presburger
  then show ?case
    by (simp only: b64_decode.simps b64_sextets.simps e j)
next
  case (3 p q)
  then have "q < 64" "q mod 16 = 0" by auto
  then have "q div 16 < 4" by simp
  then have e: "(p * 4 + q div 16) div 4 = p" "(p * 4 + q div 16) mod 4 = q div 16"
    by simp_all
  have "q div 16 * 16 = q" using \<open>q mod 16 = 0\<close> by presburger
  then show ?case
    by (simp only: b64_decode.simps b64_sextets.simps e)
qed simp_all

lemma b64_decode_bound: "\<forall>v \<in> set vs. v < 64 \<Longrightarrow> \<forall>x \<in> set (b64_decode vs). x < 256"
proof (induction vs rule: b64_decode.induct)
  case (1 p q r s rest)
  then have "p < 64" "q < 64" "r < 64" "s < 64" by auto
  moreover have "q div 16 < 4" "r div 4 < 16" "q mod 16 < 16" "r mod 4 < 4"
    using \<open>q < 64\<close> \<open>r < 64\<close> by simp_all
  ultimately have "p * 4 + q div 16 < 256" "(q mod 16) * 16 + r div 4 < 256" "(r mod 4) * 64 + s < 256"
    by linarith+
  then show ?case using 1 by simp
next
  case (2 p q r)
  then have "p < 64" "q < 64" "r < 64" by auto
  moreover have "q div 16 < 4" "r div 4 < 16" "q mod 16 < 16"
    using \<open>q < 64\<close> \<open>r < 64\<close> by simp_all
  ultimately have "p * 4 + q div 16 < 256" "(q mod 16) * 16 + r div 4 < 256"
    by linarith+
  then show ?case by simp
next
  case (3 p q)
  then have "p < 64" "q < 64" by auto
  moreover have "q div 16 < 4" using \<open>q < 64\<close> by simp
  ultimately have "p * 4 + q div 16 < 256" by linarith
  then show ?case by simp
qed simp_all

lemma url_alphabet_pick:
  assumes "v < 64" "\<forall>i \<in> set ixs. i < 64"
  shows "url_char (b64char v) \<in> set (map ((!) url_alphabet) ixs) \<longleftrightarrow> v \<in> set ixs"
proof
  assume "url_char (b64char v) \<in> set (map ((!) url_alphabet) ixs)"
  then obtain i where i: "i \<in> set ixs" "url_alphabet ! v = url_alphabet ! i"
    using assms(1) by (auto simp: url_alphabet_nth)
  then have "v = i"
    using assms nth_eq_iff_index_eq [OF url_alphabet_distinct, of v i]
    by (simp add: url_alphabet_length)
  then show "v \<in> set ixs" using i by simp
next
  assume "v \<in> set ixs"
  then have "url_alphabet ! v \<in> set (map ((!) url_alphabet) ixs)" by simp
  then show "url_char (b64char v) \<in> set (map ((!) url_alphabet) ixs)"
    using assms(1) by (simp only: url_alphabet_nth)
qed

lemma multiples16: "v < 64 \<Longrightarrow> v \<in> set [0, 16, 32, 48] \<longleftrightarrow> v mod 16 = (0::nat)"
proof -
  assume "v < 64"
  have "v mod 16 = 0 \<Longrightarrow> v = 0 \<or> v = 16 \<or> v = 32 \<or> v = 48"
    using \<open>v < 64\<close> by presburger
  then show ?thesis by auto
qed

lemma multiples4:
  "v < 64 \<Longrightarrow> v \<in> set [0, 4, 8, 12, 16, 20, 24, 28, 32, 36, 40, 44, 48, 52, 56, 60]
     \<longleftrightarrow> v mod 4 = (0::nat)"
proof -
  assume "v < 64"
  have "v mod 4 = 0 \<Longrightarrow> v = 0 \<or> v = 4 \<or> v = 8 \<or> v = 12 \<or> v = 16 \<or> v = 20 \<or> v = 24
     \<or> v = 28 \<or> v = 32 \<or> v = 36 \<or> v = 40 \<or> v = 44 \<or> v = 48 \<or> v = 52 \<or> v = 56 \<or> v = 60"
    using \<open>v < 64\<close> by presburger
  then show ?thesis by auto
qed

lemma url_last16:
  assumes "v < 64"
  shows "url_char (b64char v) \<in> set ''AQgw'' \<longleftrightarrow> v mod 16 = 0"
proof -
  have "''AQgw'' = map ((!) url_alphabet) [0, 16, 32, 48]"
    by (simp add: url_alphabet_def)
  then show ?thesis
    using url_alphabet_pick [OF assms, of "[0, 16, 32, 48]"] multiples16 [OF assms]
    by simp
qed

lemma url_last4:
  assumes "v < 64"
  shows "url_char (b64char v) \<in> set ''AEIMQUYcgkosw048'' \<longleftrightarrow> v mod 4 = 0"
proof -
  have "''AEIMQUYcgkosw048'' =
    map ((!) url_alphabet) [0, 4, 8, 12, 16, 20, 24, 28, 32, 36, 40, 44, 48, 52, 56, 60]"
    by (simp add: url_alphabet_def)
  then show ?thesis
    using url_alphabet_pick [OF assms, of "[0, 4, 8, 12, 16, 20, 24, 28, 32, 36, 40, 44, 48, 52, 56, 60]"]
      multiples4 [OF assms]
    by simp
qed

lemma canonical_sextets_last:
  assumes "\<forall>v \<in> set vs. v < 64"
  shows "canonical_wire_text (map (\<lambda>v. url_char (b64char v)) vs) \<longleftrightarrow> canonical_sextets vs"
proof (cases "vs = []")
  case True
  then show ?thesis by (simp add: canonical_wire_text_def)
next
  case False
  let ?f = "\<lambda>v. url_char (b64char v)"
  have l: "last vs < 64" using False assms by simp
  have "last (map ?f vs) = ?f (last vs)" using False by (rule last_map)
  then have a: "last (map ?f vs) \<in> set ''AQgw'' \<longleftrightarrow> last vs mod 16 = 0"
    and b: "last (map ?f vs) \<in> set ''AEIMQUYcgkosw048'' \<longleftrightarrow> last vs mod 4 = 0"
    using url_last16 [OF l] url_last4 [OF l] by simp_all
  have "?f v \<in> set url_alphabet" if "v < 64" for v
    using that nth_mem [of v url_alphabet] by (simp add: url_alphabet_nth url_alphabet_length)
  then have s: "set (map ?f vs) \<subseteq> set url_alphabet" using assms by auto
  show ?thesis
    unfolding canonical_wire_text_def canonical_sextets_iff a b using s by simp
qed

lemma encode_decode_text:
  assumes "canonical_wire_text t"
  shows "\<exists>bs. decode_text t = Inr bs \<and> encode_bytes bs = t"
proof -
  let ?f = "\<lambda>v. url_char (b64char v)"
  from assms have "set t \<subseteq> set url_alphabet" by (simp add: canonical_wire_text_def)
  then obtain vs where t: "t = map ?f vs" and b: "\<forall>v \<in> set vs. v < 64"
    using url_text_sextets by blast
  have c: "canonical_sextets vs" using assms b canonical_sextets_last unfolding t by blast
  then have l: "length vs mod 4 \<noteq> 1" by (simp add: canonical_sextets_iff)
  have d: "decode_text t = Inr (map word_of_nat (b64_decode vs))"
    unfolding t using b l by (rule decode_text_sextets)
  have "map unat (map word_of_nat (b64_decode vs) :: byte list) = b64_decode vs"
    using b64_decode_bound [OF b] by (simp add: unat_of_nat map_idI)
  then have "encode_bytes (map word_of_nat (b64_decode vs)) = map ?f (b64_sextets (b64_decode vs))"
    by (simp only: encode_bytes_sextets)
  also have "\<dots> = t" using sextets_decode_canonical [OF b c] t by simp
  finally show ?thesis using d by blast
qed

lemma canonical_b64_sextets: "canonical_sextets (b64_sextets bs)"
  by (induction bs rule: b64_sextets.induct) simp_all

lemma encode_bytes_canonical: "canonical_wire_text (encode_bytes bs)"
proof -
  have "\<forall>v \<in> set (b64_sextets (map unat bs)). v < 64"
    by (rule b64_sextets_bound) (rule unat_byte_bound)
  then show ?thesis
    unfolding encode_bytes_sextets by (simp only: canonical_sextets_last canonical_b64_sextets)
qed

subsection \<open>Arrays\<close>

lemma to_number_throws:
  "to_number tn x = Inl err \<longleftrightarrow> err = ConversionTypeError \<and> ((\<exists>n. x = EBigInt n) \<or> has_symbol x)"
  by (cases x) auto

lemma uint8_from_throws: "uint8_from tn xs = Inl err \<Longrightarrow> err = ConversionTypeError"
  by (induction xs) (auto simp: to_number_throws split: sum.splits)

lemma uint8_from_returns:
  "(\<exists>bs. uint8_from tn xs = Inr bs) \<longleftrightarrow>
     (\<forall>x \<in> set xs. (\<forall>n. x \<noteq> EBigInt n) \<and> \<not> has_symbol x)"
proof (induction xs)
  case Nil
  show ?case by simp
next
  case (Cons x xs)
  show ?case
  proof (cases "to_number tn x")
    case (Inl err)
    then show ?thesis using to_number_throws [of tn x err] by auto
  next
    case (Inr n)
    have "\<not> ((\<exists>n. x = EBigInt n) \<or> has_symbol x)"
      using Inr to_number_throws [of tn x ConversionTypeError] by simp
    then show ?thesis using Inr Cons.IH by (auto split: sum.splits)
  qed
qed

lemma uint8_from_length: "uint8_from tn xs = Inr bs \<Longrightarrow> length bs = length xs"
  by (induction xs arbitrary: bs) (auto split: sum.splits)

lemma uint8_from_numbers: "uint8_from tn (map ENum ns) = Inr (map to_uint8 ns)"
  by (induction ns) simp_all

section \<open>Properties of the ceremonies\<close>

lemma run_ret: "ret v c = (Inr v, c, [])" by (simp add: ret_def)

lemma run_throw: "throw x c = (Inl x, c, [])" by (simp add: throw_def)

lemma run_lift: "lift r c = (r, c, [])" by (simp add: lift_def)

lemma run_emit: "emit ev c = (Inr (), c, [ev])" by (simp add: emit_def)

lemmas run_simps = run_ret run_throw run_lift run_emit

lemma post_run:
  "post e path body c =
     (post_result (fetch e (apiUrl (config c) @ path) body), c,
      [EFetch (apiUrl (config c) @ path) (createHeaders (config c)) body])"
  by (simp add: post_def post_result_def Let_def andThen_def run_simps
      split: fetch_outcome.splits sum.splits)

lemma catch_unknown_run: "catch_unknown e x c = (caught_result e x, c, [])"
  by (simp add: catch_unknown_def caught_result_def andThen_def run_simps split: sum.splits)

lemma encode_run: "\<exists>r. encode e x c = (r, c, [])"
  by (simp add: encode_def run_simps split: sum.splits)


lemma andThen_lift: "andThen (lift r) f = (case r of Inl x \<Rightarrow> throw x | Inr v \<Rightarrow> f v)"
  by (rule ext) (simp add: andThen_def lift_def throw_def split: sum.splits prod.splits)

lemma create_run:
  "credentials_create_call e pk c =
     ((case credentials_create e pk of CredRejected x \<Rightarrow> Inl x | CredResolved cr \<Rightarrow> Inr cr),
      c, [ECreate pk])"
  by (simp add: credentials_create_call_def andThen_def run_simps split: credential_outcome.splits)


lemma register_body_supported:
  assumes "isBrowserSupported e"
  shows "register_body e token nick c =
    (let f0 = EFetch (apiUrl (config c) @ ''/register/begin'') (createHeaders (config c))
                (JObj [(''token'', JStr token), (''RPID'', JStr (rpid (config c))),
                       (''Origin'', JStr (origin (config c)))]) in
     case bindE (post_result (fetch e (apiUrl (config c) @ ''/register/begin'')
                (JObj [(''token'', JStr token), (''RPID'', JStr (rpid (config c))),
                       (''Origin'', JStr (origin (config c)))])))
            (\<lambda>registration. bindE (get_prop registration ''error'') (\<lambda>err.
               if truthy err then Inr (Inl (JObj [(''error'', err)]))
               else bindE (decode_registration registration) (\<lambda>pk. Inr (Inr (registration, pk))))) of
       Inl x \<Rightarrow> (Inl x, c, [f0])
     | Inr (Inl early) \<Rightarrow> (Inr early, c, [f0])
     | Inr (Inr (registration, pk)) \<Rightarrow>
         (case credentials_create e pk of
            CredRejected x \<Rightarrow> (Inl x, c, [f0, ECreate pk])
          | CredResolved credential \<Rightarrow>
              (case after_create e registration nick credential c of
                 (r, c', t) \<Rightarrow> (r, c', [f0, ECreate pk] @ t))))"
  using assms
  by (simp add: register_body_def assertBrowserSupported_def registerBegin_def andThen_def
      post_run run_simps create_run bindE_def Let_def after_create_def
      split: sum.splits credential_outcome.splits prod.splits option.splits)

lemma try_catch_unknown: "try_catch m (catch_unknown e) c = settle e (m c)"
proof (cases "m c")
  case (fields r c1 t)
  show ?thesis
  proof (cases r)
    case (Inl x)
    then show ?thesis using fields
      by (simp add: try_catch_def settle_def catch_unknown_run)
  next
    case (Inr v)
    then show ?thesis using fields by (simp add: try_catch_def settle_def)
  qed
qed

lemma settle_simps:
  "settle e (Inl x, c, t) = (caught_result e x, c, t)"
  "settle e (Inr v, c, t) = (Inr v, c, t)"
  by (simp_all add: settle_def)

lemma caught_result_ErrorObject:
  "caught_result e (ErrorObject name m) = Inr (client_error ''unknown'' m)"
  by (simp add: caught_result_def getErrorMessage_def toErrorWithMessage_def)


lemma caught_result_message:
  "getErrorMessage e x = Inr m \<Longrightarrow> caught_result e x = Inr (client_error ''unknown'' m)"
  by (simp add: caught_result_def)

lemma register_unsupported:
  assumes "\<not> isBrowserSupported e"
  shows "register e token nick c = (Inr (client_error ''unknown'' unsupported_msg), c, [])"
proof -
  have "register_body e token nick c = (Inl (ErrorObject ''Error'' unsupported_msg), c, [])"
    using assms by (simp add: register_body_def assertBrowserSupported_def andThen_def run_simps)
  then show ?thesis
    by (simp add: register_def try_catch_unknown settle_simps caught_result_ErrorObject)
qed


lemma handleAbort_run: "handleAbort c = (Inr (), renewed c, [EAbort (abortController c)])"
  by (simp add: handleAbort_def abort_def andThen_def renewed_def)

lemma config_renewed [simp]: "config (renewed c) = config c"
  by (simp add: renewed_def)

lemma get_run:
  "credentials_get_call e pk med c =
     ((case credentials_get e pk med (abortController c) of
         CredRejected x \<Rightarrow> Inl x | CredResolved cr \<Rightarrow> Inr cr),
      c, [EGet pk med (abortController c)])"
  by (simp add: credentials_get_call_def andThen_def run_simps split: credential_outcome.splits)

lemma signinComplete_run:
  "\<exists>r t. signinComplete e credential session c = (r, c, t) \<and>
     (t = [] \<or> (\<exists>b. t = [EFetch (apiUrl (config c) @ ''/signin/complete'')
                            (createHeaders (config c)) b]))"
proof (cases credential)
  case None
  then show ?thesis by (simp add: signinComplete_def run_simps)
next
  case (Some cr)
  then show ?thesis
    using encode_run [of e "CUint8Array (rawId cr)" c]
      encode_run [of e "response_member cr ''authenticatorData''" c]
      encode_run [of e "response_member cr ''clientDataJSON''" c]
      encode_run [of e "response_member cr ''signature''" c]
    by (auto simp: signinComplete_def andThen_def post_run split: sum.splits)
qed

lemma after_get_run:
  "\<exists>r t. after_get e resp credential c = (r, c, t) \<and>
     (t = [] \<or> (\<exists>b. t = [EFetch (apiUrl (config c) @ ''/signin/complete'')
                            (createHeaders (config c)) b]))"
proof (cases "get_prop resp ''session''")
  case (Inl x)
  then show ?thesis by (simp add: after_get_def andThen_lift run_simps)
next
  case (Inr session)
  then show ?thesis using signinComplete_run [of e credential session c]
    by (simp add: after_get_def andThen_lift)
qed


lemma signin_body_supported:
  assumes "isBrowserSupported e"
  shows "signin_body_run e sel c =
    (let c1 = renewed c;
         url = apiUrl (config c) @ ''/signin/begin'';
         body = signin_body (config c) (selected sel);
         a0 = EAbort (abortController c);
         f0 = EFetch url (createHeaders (config c)) body;
         med = mediation_of (selected sel) in
     case bindE (post_result (fetch e url body))
            (\<lambda>resp. bindE (get_prop resp ''error'') (\<lambda>err.
               if truthy err then Inr (Inl resp)
               else bindE (decode_signin resp) (\<lambda>pk. Inr (Inr (resp, pk))))) of
       Inl x \<Rightarrow> (Inl x, c1, [a0, f0])
     | Inr (Inl early) \<Rightarrow> (Inr early, c1, [a0, f0])
     | Inr (Inr (resp, pk)) \<Rightarrow>
         (case credentials_get e pk med (abortController c1) of
            CredRejected x \<Rightarrow> (Inl x, c1, [a0, f0, EGet pk med (abortController c1)])
          | CredResolved credential \<Rightarrow>
              (case after_get e resp credential c1 of
                 (r, c', t) \<Rightarrow> (r, c', [a0, f0, EGet pk med (abortController c1)] @ t))))"
  using assms
  by (simp add: signin_body_run_def assertBrowserSupported_def signinBegin_def andThen_def
      handleAbort_run post_run run_simps get_run bindE_def Let_def after_get_def selected_def
      mediation_of_def
      split: sum.splits credential_outcome.splits prod.splits option.splits)

lemma signin_unsupported:
  assumes "\<not> isBrowserSupported e"
  shows "signin e sel c = (Inr (client_error ''unknown'' unsupported_msg), c, [])"
proof -
  have "signin_body_run e sel c = (Inl (ErrorObject ''Error'' unsupported_msg), c, [])"
    using assms by (simp add: signin_body_run_def assertBrowserSupported_def andThen_def run_simps)
  then show ?thesis
    by (simp add: signin_def try_catch_unknown settle_simps caught_result_ErrorObject)
qed

lemma signinWithAutofill_unsupported:
  assumes "\<not> isBrowserSupported e"
  shows "signinWithAutofill e c =
     (case publicKeyCredential e of
        PkcAbsent \<Rightarrow> (Inl (PlatformFault (NullAccess ''isConditionalMediationAvailable'')), c, [])
      | PkcNonFunction (Some True) \<Rightarrow> (Inr (client_error ''unknown'' unsupported_msg), c, [])
      | _ \<Rightarrow> (Inl (ErrorObject ''Error'' autofill_msg), c, []))"
  using assms signin_unsupported [OF assms, of "Some Autofill" c]
  by (simp add: signinWithAutofill_def isAutofillSupported_def andThen_def run_simps
      isBrowserSupported_def split: pkc.splits option.splits bool.splits)

lemma map_of_set_prop: "map_of (set_prop fs name v) = (map_of fs)(name \<mapsto> v)"
  by (induction fs name v rule: set_prop.induct) (auto simp: fun_eq_iff)




lemma no_begin_requests:
  "(\<forall>url h b. EFetch url h b \<in> set t \<longrightarrow> url \<noteq> apiUrl cfg @ ''/signin/begin'') \<Longrightarrow>
   begin_requests cfg t = []"
  by (induction t) (auto simp: begin_requests_def fetches_def split: event.splits)

lemma begin_requests_append:
  "begin_requests cfg (t @ u) = begin_requests cfg t @ begin_requests cfg u"
  by (simp add: begin_requests_def fetches_def)

lemma signin_trace:
  assumes "isBrowserSupported e" and run: "signin e sel c = (r, c', t)"
  shows "\<exists>rest. t = [EAbort (abortController c),
                      EFetch (apiUrl (config c) @ ''/signin/begin'') (createHeaders (config c))
                        (signin_body (config c) (selected sel))] @ rest \<and>
           c' = renewed c \<and>
           (\<forall>url h b. EFetch url h b \<in> set rest \<longrightarrow> url = apiUrl (config c) @ ''/signin/complete'') \<and>
           (\<forall>pk med sig. EGet pk med sig \<in> set rest \<longrightarrow>
              med = mediation_of (selected sel) \<and> sig = abortController (renewed c)) \<and>
           (\<forall>n. EAbort n \<notin> set rest)"
proof -
  let ?c1 = "renewed c"
  let ?url = "apiUrl (config c) @ ''/signin/begin''"
  let ?body = "signin_body (config c) (selected sel)"
  let ?a0 = "EAbort (abortController c)"
  let ?f0 = "EFetch ?url (createHeaders (config c)) ?body"
  let ?med = "mediation_of (selected sel)"
  let ?pre = "bindE (post_result (fetch e ?url ?body))
            (\<lambda>resp. bindE (get_prop resp ''error'') (\<lambda>err.
               if truthy err then Inr (Inl resp)
               else bindE (decode_signin resp) (\<lambda>pk. Inr (Inr (resp, pk)))))"
  have sg: "signin e sel c = settle e (signin_body_run e sel c)"
    by (simp add: signin_def try_catch_unknown)
  note shape = signin_body_supported [OF assms(1), of sel c]
  show ?thesis
  proof (cases ?pre)
    case (Inl x)
    then have "signin_body_run e sel c = (Inl x, ?c1, [?a0, ?f0])"
      using shape by (simp add: Let_def)
    then show ?thesis using run sg by (auto simp: settle_simps)
  next
    case (Inr o1)
    show ?thesis
    proof (cases o1)
      case (Inl early)
      then have "signin_body_run e sel c = (Inr early, ?c1, [?a0, ?f0])"
        using shape Inr by (simp add: Let_def)
      then show ?thesis using run sg by (auto simp: settle_simps)
    next
      case (Inr rp)
      obtain resp pk' where rp: "rp = (resp, pk')" by (cases rp)
      let ?g = "EGet pk' ?med (abortController ?c1)"
      show ?thesis
      proof (cases "credentials_get e pk' ?med (abortController ?c1)")
        case (CredRejected x)
        then have "signin_body_run e sel c = (Inl x, ?c1, [?a0, ?f0, ?g])"
          using shape \<open>?pre = Inr o1\<close> Inr rp by (simp add: Let_def)
        then show ?thesis using run sg by (auto simp: settle_simps)
      next
        case (CredResolved credential)
        obtain r1 t1 where a: "after_get e resp credential ?c1 = (r1, ?c1, t1)"
          and ng: "t1 = [] \<or> (\<exists>b. t1 = [EFetch (apiUrl (config ?c1) @ ''/signin/complete'')
                            (createHeaders (config ?c1)) b])"
          using after_get_run [of e resp credential ?c1] by blast
        have b: "signin_body_run e sel c = (r1, ?c1, [?a0, ?f0, ?g] @ t1)"
          using shape \<open>?pre = Inr o1\<close> Inr rp CredResolved a by (simp add: Let_def)
        have "t = [?a0, ?f0] @ (?g # t1) \<and> c' = ?c1"
          using run sg b by (cases r1) (auto simp: settle_simps)
        then show ?thesis using ng by auto
      qed
    qed
  qed
qed

lemma signin_begin_requests:
  assumes "isBrowserSupported e" and run: "signin e sel c = (r, c', t)"
  shows "begin_requests (config c) t = [signin_body (config c) (selected sel)]"
proof -
  obtain rest where t: "t = [EAbort (abortController c),
                      EFetch (apiUrl (config c) @ ''/signin/begin'') (createHeaders (config c))
                        (signin_body (config c) (selected sel))] @ rest"
    and f: "\<forall>url h b. EFetch url h b \<in> set rest \<longrightarrow> url = apiUrl (config c) @ ''/signin/complete''"
    using signin_trace [OF assms] by blast
  have "begin_requests (config c) rest = []"
    using f by (intro no_begin_requests) auto
  then show ?thesis
    unfolding t begin_requests_append by (simp add: begin_requests_def fetches_def)
qed

lemma signin_begin_requests_any:
  assumes run: "signin e sel c = (r, c', t)"
  shows "begin_requests (config c) t =
           (if isBrowserSupported e then [signin_body (config c) (selected sel)] else [])"
  using signin_begin_requests [OF _ run] run
  by (auto simp: signin_unsupported begin_requests_def fetches_def)

subsection \<open>Overlapping sign-ins\<close>

lemma start_supported:
  "isBrowserSupported e \<Longrightarrow>
   act e s Start = s\<lparr>the_client := renewed (the_client s), calls := calls s @ [AwaitBegin]\<rparr>"
  by (simp add: assertBrowserSupported_def andThen_def run_simps handleAbort_run)

lemma start_unsupported:
  "\<not> isBrowserSupported e \<Longrightarrow> act e s Start = s\<lparr>calls := calls s @ [Finished]\<rparr>"
  by (simp add: assertBrowserSupported_def andThen_def run_simps)

lemma abort_state:
  "fst (snd (abort c)) = c\<lparr>aborted := insert (abortController c) (aborted c)\<rparr>"
  by (simp add: abort_def)

lemma set_update_phase: "x \<in> set (ps[i := p]) \<Longrightarrow> x = p \<or> x \<in> set ps"
  using set_update_subset_insert [of ps i p] by auto

lemma page_inv_act:
  assumes "page_inv s"
  shows "page_inv (act e s a)"
proof (cases a)
  case Start
  show ?thesis
  proof (cases "isBrowserSupported e")
    case True
    then show ?thesis using assms Start
      by (auto simp: start_supported page_inv_def renewed_def less_Suc_eq simp del: act.simps)
  next
    case False
    then show ?thesis using assms Start
      by (auto simp: start_unsupported page_inv_def simp del: act.simps)
  qed
next
  case (BeginReturns i proceeds)
  then show ?thesis using assms
    by (auto simp: page_inv_def dest!: set_update_phase)
next
  case (RetrievalSettles i)
  then show ?thesis using assms
    by (auto simp: page_inv_def dest!: set_update_phase)
next
  case CallAbort
  then show ?thesis using assms by (auto simp: page_inv_def abort_state)
qed

lemma page_inv_foldl: "page_inv s \<Longrightarrow> page_inv (foldl (act e) s as)"
  by (induction as arbitrary: s) (simp_all add: page_inv_act)

lemma page_inv_run: "page_inv (run_actions e cfg as)"
  unfolding run_actions_def by (rule page_inv_foldl) (simp add: page_inv_def new_client_def)

lemma pending_signal:
  assumes "page_inv s" and "i < length (calls s)" and "calls s ! i = AwaitGet sig"
  shows "sig = abortController (the_client s) \<or> sig \<in> aborted (the_client s)"
proof -
  have "AwaitGet sig \<in> set (calls s)" using assms(2,3) by (metis nth_mem)
  then have "sig < next_controller (the_client s)" using assms(1) by (simp add: page_inv_def)
  then show ?thesis using assms(1) by (simp add: page_inv_def)
qed

text \<open>
  A call that reads its signal while the controller is still the one it installed: every
  step but the start of another sign-in keeps the controller, and the call's retrieval, once
  it is under way, holds that controller's signal.
\<close>

lemma own_signal_act:
  assumes "a \<noteq> Start" and "abortController (the_client s) = ctrl" and "k < length (calls s)"
    and "\<forall>sig. calls s ! k = AwaitGet sig \<longrightarrow> sig = ctrl"
  shows "abortController (the_client (act e s a)) = ctrl \<and> k < length (calls (act e s a)) \<and>
         (\<forall>sig. calls (act e s a) ! k = AwaitGet sig \<longrightarrow> sig = ctrl)"
proof (cases a)
  case Start
  then show ?thesis using assms(1) by simp
next
  case (BeginReturns i proceeds)
  then show ?thesis using assms(2-4) by (auto simp: nth_list_update)
next
  case (RetrievalSettles i)
  then show ?thesis using assms(2-4) by (auto simp: nth_list_update)
next
  case CallAbort
  then show ?thesis using assms(2-4) by (simp add: abort_state)
qed

lemma own_signal_foldl:
  assumes "Start \<notin> set bs" and "abortController (the_client s) = ctrl" and "k < length (calls s)"
    and "\<forall>sig. calls s ! k = AwaitGet sig \<longrightarrow> sig = ctrl"
  shows "abortController (the_client (foldl (act e) s bs)) = ctrl \<and>
         k < length (calls (foldl (act e) s bs)) \<and>
         (\<forall>sig. calls (foldl (act e) s bs) ! k = AwaitGet sig \<longrightarrow> sig = ctrl)"
  using assms
proof (induction bs arbitrary: s)
  case Nil
  then show ?case by simp
next
  case (Cons a bs)
  have a: "a \<noteq> Start" and bs: "Start \<notin> set bs" using Cons.prems(1) by auto
  note step = own_signal_act [OF a Cons.prems(2) Cons.prems(3) Cons.prems(4), of e]
  have "abortController (the_client (foldl (act e) (act e s a) bs)) = ctrl \<and>
         k < length (calls (foldl (act e) (act e s a) bs)) \<and>
         (\<forall>sig. calls (foldl (act e) (act e s a) bs) ! k = AwaitGet sig \<longrightarrow> sig = ctrl)"
    using step by (intro Cons.IH [OF bs]) simp_all
  then show ?case by simp
qed

lemma no_members: "\<forall>i. i \<notin> set xs \<Longrightarrow> xs = []"
  by (cases xs) auto

lemma live_retrievals_iff:
  "i \<in> set (live_retrievals s) \<longleftrightarrow>
     i < length (calls s) \<and> (\<exists>sig. calls s ! i = AwaitGet sig \<and> sig \<notin> aborted (the_client s))"
  by (auto simp: live_retrievals_def split: phase.splits)

section \<open>Claims about the codec\<close>

lemma url_alphabet_plain:
  "CHR ''+'' \<notin> set url_alphabet" "CHR ''/'' \<notin> set url_alphabet" "CHR ''='' \<notin> set url_alphabet"
  by (simp_all add: url_alphabet_def)

text \<open>
Claim C3. Whenever \<open>arrayBufferToBase64Url\<close> returns a string (that is, on every
  input it accepts), the string contains no \<open>+\<close>, no \<open>/\<close> and no \<open>=\<close>.
\<close>

theorem encoder_output_alphabet:
  assumes "arrayBufferToBase64Url tn x = Inr s"
  shows "CHR ''+'' \<notin> set s \<and> CHR ''/'' \<notin> set s \<and> CHR ''='' \<notin> set s"
proof -
  from assms obtain bs where "s = encode_bytes bs"
    by (cases x) (auto split: sum.splits)
  then have "set s \<subseteq> set url_alphabet"
    using encode_bytes_canonical [of bs] by (simp add: canonical_wire_text_def)
  then show ?thesis using url_alphabet_plain by blast
qed

theorem encoder_output_alphabet_witness:
  "arrayBufferToBase64Url sample_string_to_number (CUint8Array [0xfb, 0xff, 0xfe]) = Inr ''-__-'' \<and>
   CHR ''+'' \<notin> set ''-__-'' \<and> CHR ''/'' \<notin> set ''-__-'' \<and> CHR ''='' \<notin> set ''-__-''"
proof -
  have e: "arrayBufferToBase64Url sample_string_to_number (CUint8Array [0xfb, 0xff, 0xfe]) = Inr ''-__-''"
    by code_simp
  from encoder_output_alphabet [OF e] e show ?thesis by simp
qed

text \<open>
Claim C4 does not hold for arrays. \<open>arrayBufferToBase64Url\<close> asks \<open>Array.isArray\<close>
  only and hands every array to \<open>Uint8Array.from\<close>: an array of a string, or of a
  boolean, \<open>null\<close> and an object, is no numeric array and is encoded all the same; an
  array with a BigInt or a symbol makes the conversion throw the engine's \<open>TypeError\<close>,
  which is not the "input was not of type ..." \<open>Error\<close>.
\<close>

theorem array_elements_counterexample:
  "arrayBufferToBase64Url sample_string_to_number (CArray [EStr ''65'']) = Inr ''QQ'' \<and>
   arrayBufferToBase64Url sample_string_to_number (CArray [EBool True, ENull, EObject]) = Inr ''AQAA'' \<and>
   arrayBufferToBase64Url sample_string_to_number (CArray [EBigInt 1]) = Inl ConversionTypeError \<and>
   arrayBufferToBase64Url sample_string_to_number (CArray [ESymbol]) = Inl ConversionTypeError \<and>
   ConversionTypeError \<noteq> Error not_buffer_msg"
  by code_simp

text \<open>
Claim C4, amended. \<open>base64UrlToArrayBuffer\<close> throws its \<open>TypeError\<close> on every input
  that is not a string. \<open>arrayBufferToBase64Url\<close> returns the encoding of the bytes of
  every \<open>Uint8Array\<close> and \<open>ArrayBuffer\<close>. It accepts every array without looking at
  the elements: an array of numbers is encoded as the bytes its numbers convert to (the
  fraction dropped, the rest reduced modulo 256, 0 for not-a-number and the infinities); an
  array of numbers, strings, booleans, \<open>null\<close>, \<open>undefined\<close>, plain objects and arrays
  is encoded exactly when no element is a BigInt, a symbol or an array that contains a
  symbol, with one byte for each element, and throws the engine's conversion \<open>TypeError\<close>
  otherwise. The "input was not of type ..." \<open>Error\<close> is thrown exactly on the inputs
  that are no array, no \<open>ArrayBuffer\<close> and no \<open>Uint8Array\<close>.
\<close>

theorem codec_input_shapes:
  "((\<forall>s. x \<noteq> CString s) \<longrightarrow> base64UrlToArrayBuffer x = Inl (TypeError not_string_msg)) \<and>
   arrayBufferToBase64Url tn (CUint8Array bs) = Inr (encode_bytes bs) \<and>
   arrayBufferToBase64Url tn (CArrayBuffer bs) = Inr (encode_bytes bs) \<and>
   arrayBufferToBase64Url tn (CArray (map ENum ns)) = Inr (encode_bytes (map to_uint8 ns)) \<and>
   ((\<exists>t. arrayBufferToBase64Url tn (CArray xs) = Inr t) \<longleftrightarrow>
      (\<forall>y \<in> set xs. (\<forall>n. y \<noteq> EBigInt n) \<and> \<not> has_symbol y)) \<and>
   (arrayBufferToBase64Url tn (CArray xs) = Inr t \<longrightarrow>
      (\<exists>bytes. uint8_from tn xs = Inr bytes \<and> length bytes = length xs \<and> t = encode_bytes bytes)) \<and>
   ((\<exists>y \<in> set xs. (\<exists>n. y = EBigInt n) \<or> has_symbol y) \<longrightarrow>
      arrayBufferToBase64Url tn (CArray xs) = Inl ConversionTypeError) \<and>
   (arrayBufferToBase64Url tn x = Inl (Error not_buffer_msg) \<longleftrightarrow>
      (\<forall>b. x \<noteq> CUint8Array b) \<and> (\<forall>b. x \<noteq> CArrayBuffer b) \<and> (\<forall>ys. x \<noteq> CArray ys))"
proof -
  have 1: "(\<forall>s. x \<noteq> CString s) \<longrightarrow> base64UrlToArrayBuffer x = Inl (TypeError not_string_msg)"
    by (cases x) simp_all
  have 2: "arrayBufferToBase64Url tn (CArray (map ENum ns)) = Inr (encode_bytes (map to_uint8 ns))"
    by (simp add: uint8_from_numbers)
  have 3: "(\<exists>t. arrayBufferToBase64Url tn (CArray xs) = Inr t) \<longleftrightarrow>
      (\<forall>y \<in> set xs. (\<forall>n. y \<noteq> EBigInt n) \<and> \<not> has_symbol y)"
  proof -
    have "(\<exists>t. arrayBufferToBase64Url tn (CArray xs) = Inr t) \<longleftrightarrow> (\<exists>b. uint8_from tn xs = Inr b)"
      by (cases "uint8_from tn xs") simp_all
    then show ?thesis by (simp only: uint8_from_returns)
  qed
  have 4: "arrayBufferToBase64Url tn (CArray xs) = Inr t \<longrightarrow>
      (\<exists>bytes. uint8_from tn xs = Inr bytes \<and> length bytes = length xs \<and> t = encode_bytes bytes)"
    by (cases "uint8_from tn xs") (auto dest: uint8_from_length)
  have 5: "(\<exists>y \<in> set xs. (\<exists>n. y = EBigInt n) \<or> has_symbol y) \<longrightarrow>
      arrayBufferToBase64Url tn (CArray xs) = Inl ConversionTypeError"
  proof
    assume "\<exists>y \<in> set xs. (\<exists>n. y = EBigInt n) \<or> has_symbol y"
    then have "\<not> (\<exists>b. uint8_from tn xs = Inr b)" by (simp only: uint8_from_returns) blast
    then obtain err where err: "uint8_from tn xs = Inl err" by (cases "uint8_from tn xs") auto
    then have "err = ConversionTypeError" by (rule uint8_from_throws)
    then show "arrayBufferToBase64Url tn (CArray xs) = Inl ConversionTypeError" using err by simp
  qed
  have 6: "arrayBufferToBase64Url tn x = Inl (Error not_buffer_msg) \<longleftrightarrow>
      (\<forall>b. x \<noteq> CUint8Array b) \<and> (\<forall>b. x \<noteq> CArrayBuffer b) \<and> (\<forall>ys. x \<noteq> CArray ys)"
  proof (cases x)
    case (CArray ys)
    then show ?thesis by (auto split: sum.splits dest: uint8_from_throws)
  qed simp_all
  show ?thesis using 1 2 3 4 5 6 by simp
qed

theorem codec_input_shapes_witness:
  "base64UrlToArrayBuffer (CUint8Array [1, 2]) = Inl (TypeError not_string_msg) \<and>
   arrayBufferToBase64Url sample_string_to_number (CString ''QQ'') = Inl (Error not_buffer_msg) \<and>
   arrayBufferToBase64Url sample_string_to_number
     (CArray [ENum (Finite (3 / 2)), EStr ''0x41'', EArray [EBigInt 7]]) = Inr ''AUEH'' \<and>
   arrayBufferToBase64Url sample_string_to_number (CArray [ENum (Finite 1), EArray [ESymbol]]) =
     Inl ConversionTypeError"
proof -
  let ?good = "[ENum (Finite (3 / 2)), EStr ''0x41'', EArray [EBigInt 7]]"
  let ?bad = "[ENum (Finite 1), EArray [ESymbol]]"
  have g: "arrayBufferToBase64Url sample_string_to_number (CArray ?good) = Inr ''AUEH''"
    by code_simp
  have b: "\<exists>y \<in> set ?bad. (\<exists>n. y = EBigInt n) \<or> has_symbol y" by simp
  have s: "\<forall>s. CUint8Array [1, 2] \<noteq> CString s" by simp
  have o: "(\<forall>b. CString ''QQ'' \<noteq> CUint8Array b) \<and> (\<forall>b. CString ''QQ'' \<noteq> CArrayBuffer b) \<and>
           (\<forall>ys. CString ''QQ'' \<noteq> CArray ys)" by simp
  from codec_input_shapes [where x = "CUint8Array [1, 2]" and tn = sample_string_to_number
      and xs = ?bad]
    codec_input_shapes [where x = "CString ''QQ''" and tn = sample_string_to_number
      and xs = ?good and t = "''AUEH''"]
    g b s o
  show ?thesis by blast
qed

text \<open>
Claim C2 does not hold for every padding-free URL-safe text that the decoder accepts:
  \<open>QR\<close> decodes to the single byte \<open>0x41\<close> (\<open>atob\<close> drops the four unused
  bits of \<open>R\<close>), and that byte encodes to \<open>QQ\<close>.
\<close>

theorem wire_text_round_trip_counterexample:
  "set ''QR'' \<subseteq> set url_alphabet \<and>
   base64UrlToArrayBuffer (CString ''QR'') = Inr [0x41] \<and>
   arrayBufferToBase64Url sample_string_to_number (CUint8Array [0x41]) = Inr ''QQ'' \<and> ''QQ'' \<noteq> ''QR''"
  by code_simp

text \<open>
Claim C2, amended. Decoding the encoding of any byte sequence \<open>B\<close> gives \<open>B\<close>
  back. Encoding the decoding of a wire text \<open>T\<close> gives \<open>T\<close> back exactly when
  \<open>T\<close> is canonical (URL-safe alphabet, no padding, unused trailing bits zero), and
  these are exactly the texts the encoder produces. The empty byte sequence encodes to
  the empty string and the empty string decodes to the empty byte sequence.
\<close>

theorem codec_round_trip:
  "(\<exists>t. arrayBufferToBase64Url tn (CUint8Array B) = Inr t \<and> base64UrlToArrayBuffer (CString t) = Inr B) \<and>
   (canonical_wire_text T \<longleftrightarrow>
      (\<exists>bs. base64UrlToArrayBuffer (CString T) = Inr bs \<and> arrayBufferToBase64Url tn (CUint8Array bs) = Inr T)) \<and>
   arrayBufferToBase64Url tn (CUint8Array []) = Inr [] \<and>
   base64UrlToArrayBuffer (CString []) = Inr []"
proof -
  have 1: "\<exists>t. arrayBufferToBase64Url tn (CUint8Array B) = Inr t \<and> base64UrlToArrayBuffer (CString t) = Inr B"
    by (simp add: decode_encode_bytes)
  have 2: "canonical_wire_text T \<longleftrightarrow>
      (\<exists>bs. base64UrlToArrayBuffer (CString T) = Inr bs \<and> arrayBufferToBase64Url tn (CUint8Array bs) = Inr T)"
  proof
    assume "canonical_wire_text T"
    then show "\<exists>bs. base64UrlToArrayBuffer (CString T) = Inr bs \<and> arrayBufferToBase64Url tn (CUint8Array bs) = Inr T"
      using encode_decode_text [of T] by simp
  next
    assume "\<exists>bs. base64UrlToArrayBuffer (CString T) = Inr bs \<and> arrayBufferToBase64Url tn (CUint8Array bs) = Inr T"
    then obtain bs where "encode_bytes bs = T" by auto
    then show "canonical_wire_text T" using encode_bytes_canonical [of bs] by simp
  qed
  have 3: "arrayBufferToBase64Url tn (CUint8Array []) = Inr []"
    by (simp add: encode_bytes_def btoa_def base64ToBase64Url_def replace_char_def strip_trailing_eq_def)
  have 4: "base64UrlToArrayBuffer (CString []) = Inr []"
    using decode_encode_bytes [of "[]"] 3 by simp
  show ?thesis using 1 2 3 4 by blast
qed

theorem codec_round_trip_witness:
  "canonical_wire_text ''SGVsbG8'' \<and>
   base64UrlToArrayBuffer (CString ''SGVsbG8'') = Inr [72, 101, 108, 108, 111] \<and>
   arrayBufferToBase64Url sample_string_to_number (CUint8Array [72, 101, 108, 108, 111]) = Inr ''SGVsbG8''"
proof -
  have c: "canonical_wire_text ''SGVsbG8''"
    by (simp add: canonical_wire_text_def url_alphabet_def)
  have d: "base64UrlToArrayBuffer (CString ''SGVsbG8'') = Inr [72, 101, 108, 108, 111]"
    by code_simp
  from codec_round_trip [of sample_string_to_number "[72, 101, 108, 108, 111]" "''SGVsbG8''"] c d show ?thesis
    by auto
qed

section \<open>Claims about the ceremonies\<close>

text \<open>
  Claim C1 does not hold: where \<open>window.PublicKeyCredential\<close> is absent, \<open>register\<close>
  throws nothing. The error of \<open>assertBrowserSupported\<close> is raised inside the
  \<open>try\<close> block of an \<open>async\<close> method, so the promise resolves to the
  \<open>{error: ...}\<close> result.
\<close>

theorem synchronous_throw_counterexample:
  "async (register (sample_env PkcAbsent True None) ''tok1'' ''my-key'') (new_client sample_config) =
     (PromiseResolved
        (JObj [(''error'', JObj [(''from'', JStr ''client''), (''errorCode'', JStr ''unknown''),
                                 (''title'', JStr unsupported_msg)])]),
      new_client sample_config, [])"
  by code_simp

text \<open>
  Claim C1, amended. If the environment-support check returns false, no entry point
  throws synchronously and none issues a network request (the trace is empty and the
  client is unchanged). \<open>register\<close>, \<open>signinWithId\<close>, \<open>signinWithAlias\<close> and
  \<open>signinWithDiscoverable\<close> resolve to the result
  \<open>{error: {from: "client", errorCode: "unknown", title: <the unsupported message>}}\<close>.
  \<open>signinWithAutofill\<close> asks the autofill probe first, outside any \<open>try\<close>: its
  promise rejects, unless the probe answers true, in which case it resolves to the same
  error result.
\<close>

theorem unsupported_environment:
  assumes "\<not> isBrowserSupported e"
  shows "async (register e token nickname) c =
           (PromiseResolved (client_error ''unknown'' unsupported_msg), c, []) \<and>
         async (signinWithId e userId) c =
           (PromiseResolved (client_error ''unknown'' unsupported_msg), c, []) \<and>
         async (signinWithAlias e alias) c =
           (PromiseResolved (client_error ''unknown'' unsupported_msg), c, []) \<and>
         async (signinWithDiscoverable e) c =
           (PromiseResolved (client_error ''unknown'' unsupported_msg), c, []) \<and>
         async (signinWithAutofill e) c =
           (case publicKeyCredential e of
              PkcAbsent \<Rightarrow>
                PromiseRejected (PlatformFault (NullAccess ''isConditionalMediationAvailable''))
            | PkcNonFunction (Some True) \<Rightarrow>
                PromiseResolved (client_error ''unknown'' unsupported_msg)
            | _ \<Rightarrow> PromiseRejected (ErrorObject ''Error'' autofill_msg),
            c, [])"
proof -
  have "async (signinWithAutofill e) c =
           (case publicKeyCredential e of
              PkcAbsent \<Rightarrow>
                PromiseRejected (PlatformFault (NullAccess ''isConditionalMediationAvailable''))
            | PkcNonFunction (Some True) \<Rightarrow>
                PromiseResolved (client_error ''unknown'' unsupported_msg)
            | _ \<Rightarrow> PromiseRejected (ErrorObject ''Error'' autofill_msg),
            c, [])"
    by (simp add: async_def signinWithAutofill_unsupported [OF assms]
        split: pkc.splits option.splits bool.splits)
  then show ?thesis
    using assms
    by (simp add: async_def register_unsupported signin_unsupported signinWithId_def
        signinWithAlias_def signinWithDiscoverable_def)
qed

theorem unsupported_environment_witness:
  "\<not> isBrowserSupported (sample_env PkcAbsent True None) \<and>
   async (register (sample_env PkcAbsent True None) ''tok1'' ''my-key'') (new_client sample_config) =
     (PromiseResolved (client_error ''unknown'' unsupported_msg), new_client sample_config, []) \<and>
   async (signinWithAutofill (sample_env PkcAbsent True None)) (new_client sample_config) =
     (PromiseRejected (PlatformFault (NullAccess ''isConditionalMediationAvailable'')),
      new_client sample_config, [])"
proof -
  have u: "\<not> isBrowserSupported (sample_env PkcAbsent True None)"
    by (simp add: isBrowserSupported_def sample_env_def)
  have p: "publicKeyCredential (sample_env PkcAbsent True None) = PkcAbsent"
    by (simp add: sample_env_def)
  from unsupported_environment [OF u, of "''tok1''" "''my-key''" "new_client sample_config"] u p
  show ?thesis by simp
qed

text \<open>
  Claim C5. Every request to \<open>/signin/begin\<close> that a sign-in makes carries the
  \<open>userId\<close> of a userId selector with \<open>alias\<close> undefined, the \<open>alias\<close> of an
  alias selector with \<open>userId\<close> undefined, and both undefined for a discoverable, an
  autofill or an absent selector; a sign-in in a supporting browser makes exactly one
  such request. The entry points are \<open>signin\<close> with the respective selector.
\<close>

theorem signin_begin_selector:
  "(signin e sel c = (r, c', t) \<longrightarrow>
      (\<forall>body \<in> set (begin_requests (config c) t).
         get_prop body ''userId'' =
           Inr (case sel of Some (UserId u) \<Rightarrow> JStr u | _ \<Rightarrow> JUndefined) \<and>
         get_prop body ''alias'' =
           Inr (case sel of Some (Alias a) \<Rightarrow> JStr a | _ \<Rightarrow> JUndefined)) \<and>
      length (begin_requests (config c) t) = (if isBrowserSupported e then 1 else 0)) \<and>
   signinWithId e userId = signin e (Some (UserId userId)) \<and>
   signinWithAlias e alias = signin e (Some (Alias alias)) \<and>
   signinWithDiscoverable e = signin e (Some Discoverable) \<and>
   (signinWithAutofill e c = (r, c', t) \<longrightarrow>
      (\<forall>body \<in> set (begin_requests (config c) t).
         get_prop body ''userId'' = Inr JUndefined \<and> get_prop body ''alias'' = Inr JUndefined))"
proof -
  have fields: "get_prop (signin_body cfg (selected s)) ''userId'' =
           Inr (case s of Some (UserId u) \<Rightarrow> JStr u | _ \<Rightarrow> JUndefined) \<and>
         get_prop (signin_body cfg (selected s)) ''alias'' =
           Inr (case s of Some (Alias a) \<Rightarrow> JStr a | _ \<Rightarrow> JUndefined)" for cfg s
    by (simp add: signin_body_def selected_def split: option.splits signin_method.splits)
  have 1: "signin e sel c = (r, c', t) \<longrightarrow>
      (\<forall>body \<in> set (begin_requests (config c) t).
         get_prop body ''userId'' =
           Inr (case sel of Some (UserId u) \<Rightarrow> JStr u | _ \<Rightarrow> JUndefined) \<and>
         get_prop body ''alias'' =
           Inr (case sel of Some (Alias a) \<Rightarrow> JStr a | _ \<Rightarrow> JUndefined)) \<and>
      length (begin_requests (config c) t) = (if isBrowserSupported e then 1 else 0)"
    using fields [of "config c" sel] by (auto simp: signin_begin_requests_any)
  have 2: "signinWithAutofill e c = (r, c', t) \<longrightarrow>
      (\<forall>body \<in> set (begin_requests (config c) t).
         get_prop body ''userId'' = Inr JUndefined \<and> get_prop body ''alias'' = Inr JUndefined)"
  proof
    assume run: "signinWithAutofill e c = (r, c', t)"
    have "\<exists>r0. isAutofillSupported e c = (r0, c, [])"
      by (cases "publicKeyCredential e")
        (auto simp: isAutofillSupported_def run_simps split: option.splits)
    then obtain r0 where a: "isAutofillSupported e c = (r0, c, [])" ..
    show "\<forall>body \<in> set (begin_requests (config c) t).
         get_prop body ''userId'' = Inr JUndefined \<and> get_prop body ''alias'' = Inr JUndefined"
    proof (cases "r0 = Inr True")
      case True
      then have "signin e (Some Autofill) c = (r, c', t)"
        using run a by (simp add: signinWithAutofill_def andThen_def split: prod.splits)
      then show ?thesis
        using fields [of "config c" "Some Autofill"] by (auto simp: signin_begin_requests_any)
    next
      case False
      then have "t = []"
        using run a by (cases r0) (auto simp: signinWithAutofill_def andThen_def run_simps)
      then show ?thesis by (simp add: begin_requests_def fetches_def)
    qed
  qed
  show ?thesis
    using 1 2 by (simp add: signinWithId_def signinWithAlias_def signinWithDiscoverable_def)
qed

theorem signin_begin_selector_witness:
  "isBrowserSupported (sample_env (PkcFunction None) True (Some sample_credential)) \<and>
   begin_requests sample_config
     (snd (snd (signinWithId (sample_env (PkcFunction None) True (Some sample_credential)) ''u1''
        (new_client sample_config)))) =
     [JObj [(''userId'', JStr ''u1''), (''alias'', JUndefined), (''RPID'', JStr ''example.org''),
            (''Origin'', JStr ''https://example.org'')]] \<and>
   get_prop (JObj [(''userId'', JStr ''u1''), (''alias'', JUndefined), (''RPID'', JStr ''example.org''),
            (''Origin'', JStr ''https://example.org'')]) ''userId'' = Inr (JStr ''u1'') \<and>
   get_prop (JObj [(''userId'', JStr ''u1''), (''alias'', JUndefined), (''RPID'', JStr ''example.org''),
            (''Origin'', JStr ''https://example.org'')]) ''alias'' = Inr JUndefined"
proof -
  let ?e = "sample_env (PkcFunction None) True (Some sample_credential)"
  let ?c = "new_client sample_config"
  let ?b = "JObj [(''userId'', JStr ''u1''), (''alias'', JUndefined), (''RPID'', JStr ''example.org''),
            (''Origin'', JStr ''https://example.org'')]"
  obtain r c' t where run: "signin ?e (Some (UserId ''u1'')) ?c = (r, c', t)"
    by (cases "signin ?e (Some (UserId ''u1'')) ?c")
  have s: "isBrowserSupported ?e" by (simp add: isBrowserSupported_def sample_env_def)
  have b: "begin_requests (config ?c) t = [?b]"
  proof -
    have "begin_requests (config ?c) (snd (snd (signin ?e (Some (UserId ''u1'')) ?c))) = [?b]"
      by code_simp
    then show ?thesis using run by simp
  qed
  have cfg: "config ?c = sample_config" by (simp add: new_client_def)
  from signin_begin_selector [where e = ?e and sel = "Some (UserId ''u1'')" and c = ?c
      and r = r and c' = c' and t = t and userId = "''u1''"] run s b cfg
  show ?thesis by simp
qed

text \<open>
  Claim C6. When \<open>/register/begin\<close> answers with a non-success status and the JSON
  body \<open>E\<close>, \<open>register\<close> resolves to \<open>{error: {...E, from: "server"}}\<close>: the
  properties of \<open>E\<close> with \<open>from\<close> set to \<open>"server"\<close>. The begin request is the only
  event, so \<open>navigator.credentials.create\<close> is not called.
\<close>

theorem register_begin_rejected_by_server:
  assumes "isBrowserSupported e"
    and "fetch e (apiUrl (config c) @ ''/register/begin'')
           (JObj [(''token'', JStr token), (''RPID'', JStr (rpid (config c))),
                  (''Origin'', JStr (origin (config c)))])
         = FetchResponse False (Inr E)"
    and "register e token nickname c = (r, c', t)"
  shows "r = Inr (JObj [(''error'', JObj (set_prop (spread E) ''from'' (JStr ''server'')))]) \<and>
         c' = c \<and>
         map_of (set_prop (spread E) ''from'' (JStr ''server'')) =
           (map_of (spread E))(''from'' \<mapsto> JStr ''server'') \<and>
         creates t = [] \<and>
         t = [EFetch (apiUrl (config c) @ ''/register/begin'') (createHeaders (config c))
                (JObj [(''token'', JStr token), (''RPID'', JStr (rpid (config c))),
                       (''Origin'', JStr (origin (config c)))])]"
proof -
  have "register_body e token nickname c =
      (Inr (server_error E), c,
       [EFetch (apiUrl (config c) @ ''/register/begin'') (createHeaders (config c))
          (JObj [(''token'', JStr token), (''RPID'', JStr (rpid (config c))),
                 (''Origin'', JStr (origin (config c)))])])"
    using assms(2)
    by (simp add: register_body_supported [OF assms(1)] Let_def post_result_def bindE_def
        server_error_def)
  then show ?thesis
    using assms(3)
    by (auto simp: register_def try_catch_unknown settle_simps server_error_def creates_def
        map_of_set_prop)
qed

theorem register_begin_rejected_by_server_witness:
  "isBrowserSupported (sample_env (PkcFunction None) False (Some sample_credential)) \<and>
   register (sample_env (PkcFunction None) False (Some sample_credential)) ''tok1'' ''my-key''
       (new_client sample_config) =
     (Inr (JObj [(''error'', JObj [(''errorCode'', JStr ''invalid_token''),
                                   (''from'', JStr ''server'')])]),
      new_client sample_config,
      [EFetch ''https://v4.passwordless.dev/register/begin''
         [(''ApiKey'', ''key''), (''Content-Type'', ''application/json''),
          (''Client-Version'', ''js-1.1.0'')]
         (JObj [(''token'', JStr ''tok1''), (''RPID'', JStr ''example.org''),
                (''Origin'', JStr ''https://example.org'')])])"
proof -
  let ?e = "sample_env (PkcFunction None) False (Some sample_credential)"
  let ?c = "new_client sample_config"
  have s: "isBrowserSupported ?e" by (simp add: isBrowserSupported_def sample_env_def)
  have f: "fetch ?e (apiUrl (config ?c) @ ''/register/begin'')
           (JObj [(''token'', JStr ''tok1''), (''RPID'', JStr (rpid (config ?c))),
                  (''Origin'', JStr (origin (config ?c)))])
         = FetchResponse False (Inr (JObj [(''errorCode'', JStr ''invalid_token'')]))"
    by (simp add: sample_env_def new_client_def sample_config_def)
  obtain r c' t where run: "register ?e ''tok1'' ''my-key'' ?c = (r, c', t)"
    by (cases "register ?e ''tok1'' ''my-key'' ?c")
  from register_begin_rejected_by_server [OF s f run] s run show ?thesis
    by (simp add: new_client_def sample_config_def createHeaders_def)
qed








section \<open>Claim about overlapping sign-ins\<close>

text \<open>
  Claim C8 does not hold as stated. A second \<open>signin\<close> that starts while the first still
  awaits \<open>/signin/begin\<close> replaces the controller before the first has read its signal:
  both calls then pass the signal of controller 2 to \<open>navigator.credentials.get\<close>, the
  first call's retrieval does not carry the controller that call installed, and two
  retrievals are pending with a signal that has not fired.
\<close>

theorem overlapping_signins_counterexample:
  "calls (run_actions (sample_env (PkcFunction None) True (Some sample_credential)) sample_config
            [Start, Start, BeginReturns 0 True, BeginReturns 1 True]) = [AwaitGet 2, AwaitGet 2] \<and>
   aborted (the_client (run_actions (sample_env (PkcFunction None) True (Some sample_credential))
            sample_config [Start, Start, BeginReturns 0 True, BeginReturns 1 True])) = {0, 1} \<and>
   live_retrievals (run_actions (sample_env (PkcFunction None) True (Some sample_credential))
            sample_config [Start, Start, BeginReturns 0 True, BeginReturns 1 True]) = [0, 1]"
  by code_simp

text \<open>
  Claim C8, amended. A sign-in in a supporting browser first signals abort on the client's
  current controller and installs the next one, then sends its begin request, and signals
  no further abort; run without interruption it passes the signal of the controller it
  installed to its retrieval call. Over all interleavings of calls on one client, at every
  moment:
  \<^item> of the controllers made so far at most one has not been aborted, and that is the
    current one;
  \<^item> every retrieval that is pending with a signal that has not fired holds the signal of
    the current controller;
  \<^item> the start of a sign-in aborts the current controller and installs a new one, whose
    signal has not fired, and leaves no earlier retrieval with a live signal;
  \<^item> as long as no other sign-in starts after it, whatever else happens, the controller
    stays the one this sign-in installed, and when its begin response arrives its
    retrieval is called with the signal of that controller;
  \<^item> \<open>abort()\<close> leaves no retrieval with a live signal.
\<close>

theorem signin_cancellation:
  "(isBrowserSupported e \<and> signin e sel c = (r, c', t) \<longrightarrow>
      (\<exists>rest. t = EAbort (abortController c) #
                   EFetch (apiUrl (config c) @ ''/signin/begin'') (createHeaders (config c))
                     (signin_body (config c) (selected sel)) # rest \<and>
               (\<forall>n. EAbort n \<notin> set rest) \<and>
               (\<forall>pk med sig. EGet pk med sig \<in> set rest \<longrightarrow> sig = abortController c')) \<and>
      abortController c \<in> aborted c' \<and> abortController c' = next_controller c) \<and>
   (s = run_actions e cfg as \<longrightarrow>
      (\<forall>n < next_controller (the_client s).
         n \<notin> aborted (the_client s) \<longrightarrow> n = abortController (the_client s)) \<and>
      card {n. n < next_controller (the_client s) \<and> n \<notin> aborted (the_client s)} \<le> 1 \<and>
      (\<forall>i \<in> set (live_retrievals s). calls s ! i = AwaitGet (abortController (the_client s))) \<and>
      (isBrowserSupported e \<longrightarrow>
         aborted (the_client (act e s Start)) =
           insert (abortController (the_client s)) (aborted (the_client s)) \<and>
         abortController (the_client (act e s Start)) = next_controller (the_client s) \<and>
         calls (act e s Start) = calls s @ [AwaitBegin] \<and>
         live_retrievals (act e s Start) = [] \<and>
         abortController (the_client (act e s Start)) \<notin> aborted (the_client (act e s Start)) \<and>
         (Start \<notin> set bs \<and> s' = foldl (act e) (act e s Start) bs \<longrightarrow>
            abortController (the_client s') = next_controller (the_client s) \<and>
            (\<forall>sig. calls s' ! length (calls s) = AwaitGet sig \<longrightarrow>
               sig = next_controller (the_client s)) \<and>
            (calls s' ! length (calls s) = AwaitBegin \<longrightarrow>
               calls (act e s' (BeginReturns (length (calls s)) True)) ! length (calls s) =
                 AwaitGet (next_controller (the_client s))))) \<and>
      live_retrievals (act e s CallAbort) = [])"
proof -
  have 1: "isBrowserSupported e \<and> signin e sel c = (r, c', t) \<longrightarrow>
      (\<exists>rest. t = EAbort (abortController c) #
                   EFetch (apiUrl (config c) @ ''/signin/begin'') (createHeaders (config c))
                     (signin_body (config c) (selected sel)) # rest \<and>
               (\<forall>n. EAbort n \<notin> set rest) \<and>
               (\<forall>pk med sig. EGet pk med sig \<in> set rest \<longrightarrow> sig = abortController c')) \<and>
      abortController c \<in> aborted c' \<and> abortController c' = next_controller c"
  proof
    assume a: "isBrowserSupported e \<and> signin e sel c = (r, c', t)"
    then obtain rest where "t = [EAbort (abortController c),
                      EFetch (apiUrl (config c) @ ''/signin/begin'') (createHeaders (config c))
                        (signin_body (config c) (selected sel))] @ rest"
      "c' = renewed c"
      "\<forall>pk med sig. EGet pk med sig \<in> set rest \<longrightarrow>
              med = mediation_of (selected sel) \<and> sig = abortController (renewed c)"
      "\<forall>n. EAbort n \<notin> set rest"
      using signin_trace [of e sel c r c' t] by blast
    then show "(\<exists>rest. t = EAbort (abortController c) #
                   EFetch (apiUrl (config c) @ ''/signin/begin'') (createHeaders (config c))
                     (signin_body (config c) (selected sel)) # rest \<and>
               (\<forall>n. EAbort n \<notin> set rest) \<and>
               (\<forall>pk med sig. EGet pk med sig \<in> set rest \<longrightarrow> sig = abortController c')) \<and>
      abortController c \<in> aborted c' \<and> abortController c' = next_controller c"
      by (auto simp: renewed_def)
  qed
  have 2: "(\<forall>n < next_controller (the_client s).
         n \<notin> aborted (the_client s) \<longrightarrow> n = abortController (the_client s)) \<and>
      card {n. n < next_controller (the_client s) \<and> n \<notin> aborted (the_client s)} \<le> 1 \<and>
      (\<forall>i \<in> set (live_retrievals s). calls s ! i = AwaitGet (abortController (the_client s))) \<and>
      (isBrowserSupported e \<longrightarrow>
         aborted (the_client (act e s Start)) =
           insert (abortController (the_client s)) (aborted (the_client s)) \<and>
         abortController (the_client (act e s Start)) = next_controller (the_client s) \<and>
         calls (act e s Start) = calls s @ [AwaitBegin] \<and>
         live_retrievals (act e s Start) = [] \<and>
         abortController (the_client (act e s Start)) \<notin> aborted (the_client (act e s Start)) \<and>
         (Start \<notin> set bs \<and> s' = foldl (act e) (act e s Start) bs \<longrightarrow>
            abortController (the_client s') = next_controller (the_client s) \<and>
            (\<forall>sig. calls s' ! length (calls s) = AwaitGet sig \<longrightarrow>
               sig = next_controller (the_client s)) \<and>
            (calls s' ! length (calls s) = AwaitBegin \<longrightarrow>
               calls (act e s' (BeginReturns (length (calls s)) True)) ! length (calls s) =
                 AwaitGet (next_controller (the_client s))))) \<and>
      live_retrievals (act e s CallAbort) = []"
    if reach: "s = run_actions e cfg as"
  proof -
    have inv: "page_inv s" using reach by (simp add: page_inv_run)
    have one: "\<forall>n < next_controller (the_client s).
         n \<notin> aborted (the_client s) \<longrightarrow> n = abortController (the_client s)"
      using inv by (auto simp: page_inv_def)
    have "{n. n < next_controller (the_client s) \<and> n \<notin> aborted (the_client s)}
            \<subseteq> {abortController (the_client s)}"
      using one by auto
    then have "card {n. n < next_controller (the_client s) \<and> n \<notin> aborted (the_client s)}
            \<le> card {abortController (the_client s)}"
      by (intro card_mono) simp_all
    then have count: "card {n. n < next_controller (the_client s) \<and> n \<notin> aborted (the_client s)} \<le> 1"
      by simp
    have a: "\<forall>i \<in> set (live_retrievals s). calls s ! i = AwaitGet (abortController (the_client s))"
    proof
      fix i assume "i \<in> set (live_retrievals s)"
      then obtain sig where i: "i < length (calls s)" "calls s ! i = AwaitGet sig"
        "sig \<notin> aborted (the_client s)"
        by (auto simp: live_retrievals_iff)
      then have "sig = abortController (the_client s)" using pending_signal [OF inv i(1,2)] by simp
      then show "calls s ! i = AwaitGet (abortController (the_client s))" using i(2) by simp
    qed
    have b: "aborted (the_client (act e s Start)) =
           insert (abortController (the_client s)) (aborted (the_client s)) \<and>
         abortController (the_client (act e s Start)) = next_controller (the_client s) \<and>
         calls (act e s Start) = calls s @ [AwaitBegin] \<and>
         live_retrievals (act e s Start) = [] \<and>
         abortController (the_client (act e s Start)) \<notin> aborted (the_client (act e s Start)) \<and>
         (Start \<notin> set bs \<and> s' = foldl (act e) (act e s Start) bs \<longrightarrow>
            abortController (the_client s') = next_controller (the_client s) \<and>
            (\<forall>sig. calls s' ! length (calls s) = AwaitGet sig \<longrightarrow>
               sig = next_controller (the_client s)) \<and>
            (calls s' ! length (calls s) = AwaitBegin \<longrightarrow>
               calls (act e s' (BeginReturns (length (calls s)) True)) ! length (calls s) =
                 AwaitGet (next_controller (the_client s))))"
      if sup: "isBrowserSupported e"
    proof -
      let ?s1 = "act e s Start"
      let ?k = "length (calls s)"
      let ?ctrl = "next_controller (the_client s)"
      have s1: "aborted (the_client ?s1) =
           insert (abortController (the_client s)) (aborted (the_client s))"
        "abortController (the_client ?s1) = ?ctrl"
        "calls ?s1 = calls s @ [AwaitBegin]"
        by (simp_all add: start_supported [OF sup] renewed_def del: act.simps)
      have "\<forall>i. i \<notin> set (live_retrievals ?s1)"
      proof (intro allI notI)
        fix i assume "i \<in> set (live_retrievals ?s1)"
        then obtain sig where j: "i < Suc (length (calls s))"
          "(calls s @ [AwaitBegin]) ! i = AwaitGet sig"
          "sig \<noteq> abortController (the_client s)" "sig \<notin> aborted (the_client s)"
          by (auto simp: live_retrievals_iff s1 simp del: act.simps)
        then have "i < length (calls s)" by (cases "i = length (calls s)") auto
        then show False using pending_signal [OF inv, of i sig] j by (auto simp: nth_append)
      qed
      then have live: "live_retrievals ?s1 = []" by (rule no_members)
      have fresh: "abortController (the_client ?s1) \<notin> aborted (the_client ?s1)"
        using inv by (auto simp: s1 page_inv_def simp del: act.simps)
      have later: "abortController (the_client s') = ?ctrl \<and>
            (\<forall>sig. calls s' ! ?k = AwaitGet sig \<longrightarrow> sig = ?ctrl) \<and>
            (calls s' ! ?k = AwaitBegin \<longrightarrow>
               calls (act e s' (BeginReturns ?k True)) ! ?k = AwaitGet ?ctrl)"
        if bs: "Start \<notin> set bs" and s': "s' = foldl (act e) ?s1 bs"
      proof -
        have k: "?k < length (calls ?s1)" by (simp add: s1 del: act.simps)
        have p: "\<forall>sig. calls ?s1 ! ?k = AwaitGet sig \<longrightarrow> sig = ?ctrl"
          by (simp add: s1 del: act.simps)
        have own: "abortController (the_client s') = ?ctrl \<and> ?k < length (calls s') \<and>
            (\<forall>sig. calls s' ! ?k = AwaitGet sig \<longrightarrow> sig = ?ctrl)"
          unfolding s' by (rule own_signal_foldl [OF bs s1(2) k p])
        then show ?thesis by simp
      qed
      show ?thesis using s1 live fresh later by blast
    qed
    have c: "live_retrievals (act e s CallAbort) = []"
    proof -
      have "\<forall>i. i \<notin> set (live_retrievals (act e s CallAbort))"
      proof (intro allI notI)
        fix i assume "i \<in> set (live_retrievals (act e s CallAbort))"
        then obtain sig where j: "i < length (calls s)" "calls s ! i = AwaitGet sig"
          "sig \<noteq> abortController (the_client s)" "sig \<notin> aborted (the_client s)"
          by (auto simp: live_retrievals_iff abort_state)
        then show False using pending_signal [OF inv, of i sig] by auto
      qed
      then show ?thesis by (rule no_members)
    qed
    show ?thesis using one count a b c by blast
  qed
  show ?thesis using 1 2 by blast
qed

theorem signin_cancellation_witness:
  "isBrowserSupported (sample_env (PkcFunction None) True (Some sample_credential)) \<and>
   live_retrievals (run_actions (sample_env (PkcFunction None) True (Some sample_credential))
      sample_config [Start, BeginReturns 0 True]) = [0] \<and>
   calls (run_actions (sample_env (PkcFunction None) True (Some sample_credential))
      sample_config [Start, BeginReturns 0 True]) ! 0 = AwaitGet 1 \<and>
   live_retrievals (act (sample_env (PkcFunction None) True (Some sample_credential))
      (run_actions (sample_env (PkcFunction None) True (Some sample_credential))
         sample_config [Start, BeginReturns 0 True]) Start) = [] \<and>
   Start \<notin> set [CallAbort, BeginReturns 1 True] \<and>
   calls (foldl (act (sample_env (PkcFunction None) True (Some sample_credential)))
      (act (sample_env (PkcFunction None) True (Some sample_credential))
         (run_actions (sample_env (PkcFunction None) True (Some sample_credential))
            sample_config [Start, BeginReturns 0 True]) Start)
      [CallAbort, BeginReturns 1 True]) ! 1 = AwaitGet 2 \<and>
   (\<exists>r t. signin (sample_env (PkcFunction None) True (Some sample_credential)) (Some (UserId ''u1''))
            (new_client sample_config) = (r, renewed (new_client sample_config), EAbort 0 # t))"
proof -
  let ?e = "sample_env (PkcFunction None) True (Some sample_credential)"
  let ?s = "run_actions ?e sample_config [Start, BeginReturns 0 True]"
  let ?bs = "[CallAbort, BeginReturns 1 True]"
  let ?s' = "foldl (act ?e) (act ?e ?s Start) ?bs"
  let ?c = "new_client sample_config"
  have sup: "isBrowserSupported ?e" by (simp add: isBrowserSupported_def sample_env_def)
  have live: "live_retrievals ?s = [0]" by code_simp
  have cur: "abortController (the_client ?s) = 1" by code_simp
  have nxt: "next_controller (the_client ?s) = 2" by code_simp
  have len: "length (calls ?s) = 1" by code_simp
  have armed: "calls ?s' ! 1 = AwaitGet 2" by code_simp
  have bs: "Start \<notin> set ?bs" by simp
  obtain r c' t where sg: "signin ?e (Some (UserId ''u1'')) ?c = (r, c', t)"
    by (cases "signin ?e (Some (UserId ''u1'')) ?c")
  have c0: "abortController ?c = 0" "next_controller ?c = 1" by (simp_all add: new_client_def)
  have c': "c' = renewed ?c" using signin_trace [OF sup sg] by blast
  note claim = signin_cancellation [where e = ?e and sel = "Some (UserId ''u1'')" and c = ?c
      and r = r and c' = c' and t = t and s = ?s and cfg = sample_config
      and as = "[Start, BeginReturns 0 True]" and bs = ?bs and s' = ?s']
  note single = claim [THEN conjunct1, THEN mp, OF conjI [OF sup sg]]
  note reached = claim [THEN conjunct2, THEN mp, OF refl]
  note started = reached [THEN conjunct2, THEN conjunct2, THEN conjunct2, THEN conjunct1,
      THEN mp, OF sup]
  note later = started [THEN conjunct2, THEN conjunct2, THEN conjunct2, THEN conjunct2,
      THEN conjunct2, THEN mp, OF conjI [OF bs refl]]
  have "\<forall>i \<in> set (live_retrievals ?s). calls ?s ! i = AwaitGet (abortController (the_client ?s))"
    by (rule reached [THEN conjunct2, THEN conjunct2, THEN conjunct1])
  then have w1: "calls ?s ! 0 = AwaitGet 1" unfolding live cur by simp
  have w2: "live_retrievals (act ?e ?s Start) = []"
    by (rule started [THEN conjunct2, THEN conjunct2, THEN conjunct2, THEN conjunct1])
  have "\<forall>sig. calls ?s' ! length (calls ?s) = AwaitGet sig \<longrightarrow>
          sig = next_controller (the_client ?s)"
    by (rule later [THEN conjunct2, THEN conjunct1])
  then have "\<forall>sig. calls ?s' ! 1 = AwaitGet sig \<longrightarrow> sig = 2" unfolding len nxt .
  then have w3: "calls ?s' ! 1 = AwaitGet 2" using armed by blast
  obtain rest where "t = EAbort (abortController ?c) #
       EFetch (apiUrl (config ?c) @ ''/signin/begin'') (createHeaders (config ?c))
         (signin_body (config ?c) (selected (Some (UserId ''u1'')))) # rest"
    using single by blast
  then have "signin ?e (Some (UserId ''u1'')) ?c = (r, renewed ?c, EAbort 0 #
       EFetch (apiUrl (config ?c) @ ''/signin/begin'') (createHeaders (config ?c))
         (signin_body (config ?c) (selected (Some (UserId ''u1'')))) # rest)"
    using sg c' c0 by simp
  then have w4: "\<exists>r t. signin ?e (Some (UserId ''u1'')) ?c = (r, renewed ?c, EAbort 0 # t)"
    by blast
  show ?thesis using sup live w1 w2 bs w3 w4 by (intro conjI)
qed

end
